theory Spec2Isabelle
  imports Complex_Main "HOL-Library.Sublist" "HOL-Library.Log_Nat"
begin

section \<open>Data model\<close>

text \<open>
  The program is a Gin HTTP API over a MySQL database (\<^verbatim>\<open>src/main.go\<close>). Each handler
  is modelled as a function from the parsed request and the database to a response and
  the database after the call. A table is the list of its rows in insertion order, and
  each SQL statement of the source is written out as the list operation it denotes.
  Every handler that writes more than one row runs in a transaction with a deferred
  rollback, so a handler that returns an error after a write hands back the database it
  was given.

  Money columns are \<^verbatim>\<open>DECIMAL(10,2)\<close> (\<^verbatim>\<open>migrations/001_customer_product_prices.sql\<close>);
  a stored amount is modelled as the exact number of hundredths. The Go code holds
  amounts in \<^verbatim>\<open>float64\<close>: the arithmetic of \<^verbatim>\<open>createOrderHandler\<close> is modelled with
  its rounding (section \<open>float64\<close>), while a single amount that is only read from a
  column and written back to a column of the same scale is carried as it is, which
  \<open>scan_round_trip\<close> justifies for every amount below \<open>2 ^ 52\<close> hundredths.
  Timestamps are natural numbers, and \<^verbatim>\<open>NOW()\<close> / \<^verbatim>\<open>CURRENT_TIMESTAMP\<close> are the
  parameter \<open>now\<close> of the handler. Failures of the connection (the \<^verbatim>\<open>err != nil\<close>
  branches after \<^verbatim>\<open>Exec\<close>, \<^verbatim>\<open>Begin\<close> and \<^verbatim>\<open>Commit\<close>) are outside the model;
  \<^verbatim>\<open>sql.ErrNoRows\<close> is inside it.
\<close>

type_synonym decimal = int
type_synonym timestamp = nat

record User =
  u_ID :: int
  u_RoleID :: int
  u_FullName :: string
  u_Phone :: "string option"
  u_Email :: "string option"
  u_NumDoc :: "string option"
  u_PasswordHash :: string
  u_IsActive :: bool

record Product =
  p_ID :: int
  p_Name :: string
  p_CapacityLiters :: "decimal option"
  p_Price :: decimal
  p_IsActive :: bool

text \<open>A row of \<^verbatim>\<open>customer_product_prices\<close>; the primary key is (customer_id, product_id).\<close>

record CustomerPrice =
  cp_CustomerID :: int
  cp_ProductID :: int
  cp_Price :: decimal
  cp_IsActive :: bool
  cp_CreatedAt :: timestamp

record Order =
  o_ID :: int
  o_CustomerID :: int
  o_AddressID :: int
  o_AssignedDriverID :: "int option"
  o_Status :: string
  o_Subtotal :: decimal
  o_DeliveryFee :: decimal
  o_Notes :: "string option"
  o_ScheduledAt :: "timestamp option"
  o_DeliveredAt :: "timestamp option"
  o_CreatedAt :: timestamp

record OrderItem =
  oi_ID :: int
  oi_OrderID :: int
  oi_ProductID :: int
  oi_Qty :: int
  oi_UnitPrice :: decimal

record StatusHistory =
  h_ID :: int
  h_OrderID :: int
  h_OldStatus :: "string option"
  h_NewStatus :: string
  h_ChangedBy :: int
  h_ChangedAt :: timestamp
  h_Note :: "string option"

text \<open>
  The database: the six tables the modelled handlers touch, and the \<^verbatim>\<open>AUTO_INCREMENT\<close>
  counter of each table whose id the code reads back with \<^verbatim>\<open>LastInsertId\<close> or leaves to
  the database.
\<close>

record db =
  users :: "User list"
  products :: "Product list"
  customer_product_prices :: "CustomerPrice list"
  orders :: "Order list"
  order_items :: "OrderItem list"
  order_status_history :: "StatusHistory list"
  next_user_id :: int
  next_product_id :: int
  next_order_id :: int
  next_item_id :: int
  next_history_id :: int

text \<open>The HTTP error responses of the handlers: the status code and the \<^verbatim>\<open>error\<close> text.\<close>

datatype error =
  BadRequest string
  | NotFound string
  | InternalServerError string

text \<open>\<^verbatim>\<open>QueryRow(...).Scan\<close>: the first row of the result, \<^verbatim>\<open>sql.ErrNoRows\<close> when there is none.\<close>

definition QueryRow :: "'a list \<Rightarrow> 'a option" where
  "QueryRow rows = (case rows of [] \<Rightarrow> None | r # _ \<Rightarrow> Some r)"

section \<open>Order status: assignment and the generic transition\<close>

text \<open>The rows of \<^verbatim>\<open>orders WHERE id=?\<close>, which every order handler starts from.\<close>

definition orders_where_id :: "db \<Rightarrow> int \<Rightarrow> Order list" where
  "orders_where_id d i = filter (\<lambda>r. o_ID r = i) (orders d)"

text \<open>\<^verbatim>\<open>SELECT status FROM orders WHERE id=? FOR UPDATE\<close>\<close>

definition select_status :: "db \<Rightarrow> int \<Rightarrow> string list" where
  "select_status d i = map o_Status (orders_where_id d i)"

text \<open>\<^verbatim>\<open>INSERT INTO order_status_history(order_id, old_status, new_status, changed_by, note)\<close>\<close>

definition insert_history ::
  "timestamp \<Rightarrow> int \<Rightarrow> string option \<Rightarrow> string \<Rightarrow> int \<Rightarrow> string option \<Rightarrow> db \<Rightarrow> db" where
  "insert_history now order_id old new changed_by note d =
     d\<lparr>order_status_history := order_status_history d @
          [\<lparr>h_ID = next_history_id d, h_OrderID = order_id, h_OldStatus = old,
            h_NewStatus = new, h_ChangedBy = changed_by, h_ChangedAt = now, h_Note = note\<rparr>],
       next_history_id := next_history_id d + 1\<rparr>"

text \<open>\<^verbatim>\<open>UPDATE orders SET assigned_driver_id=?, status='asignado' WHERE id=?\<close>\<close>

definition update_assign :: "int \<Rightarrow> int \<Rightarrow> db \<Rightarrow> db" where
  "update_assign driver_id i d =
     d\<lparr>orders := map (\<lambda>r. if o_ID r = i
                          then r\<lparr>o_AssignedDriverID := Some driver_id, o_Status := ''asignado''\<rparr>
                          else r) (orders d)\<rparr>"

text \<open>\<^verbatim>\<open>assignOrderHandler\<close>: the path parameter \<open>i\<close> and the body \<^verbatim>\<open>AssignOrderReq\<close>.\<close>

definition assignOrderHandler :: "timestamp \<Rightarrow> int \<Rightarrow> int \<Rightarrow> db \<Rightarrow> (error + unit) \<times> db" where
  "assignOrderHandler now i DriverID d =
     (if DriverID = 0 then (Inl (BadRequest ''driver_id requerido''), d)
      else case QueryRow (select_status d i) of
        None \<Rightarrow> (Inl (NotFound ''pedido no existe''), d)
      | Some old \<Rightarrow>
          if old \<noteq> ''por_atender''
          then (Inl (BadRequest ''solo pedidos 'por_atender' pueden asignarse''), d)
          else (Inr (),
                insert_history now i (Some old) ''asignado'' DriverID
                  (Some ''Asignado a repartidor'') (update_assign DriverID i d)))"

text \<open>The transition table \<^verbatim>\<open>valid\<close>; a Go map read at an absent key gives the nil slice.\<close>

definition valid :: "string \<Rightarrow> string list" where
  "valid s =
     (if s = ''por_atender'' then [''asignado'', ''cancelado'']
      else if s = ''asignado'' then [''en_camino'', ''cancelado'']
      else if s = ''en_camino'' then [''entregado'']
      else [])"

text \<open>The loop over \<^verbatim>\<open>valid[old]\<close> that sets \<^verbatim>\<open>allowed\<close> and breaks at the first match.\<close>

fun allowed :: "string list \<Rightarrow> string \<Rightarrow> bool" where
  "allowed [] NewStatus = False"
| "allowed (s # ss) NewStatus = (if s = NewStatus then True else allowed ss NewStatus)"

text \<open>
  \<^verbatim>\<open>fmt.Sprintf("transici\'on inv\'alida %s \<rightarrow> %s", old, req.NewStatus)\<close>: the accented
  letters and the arrow are the bytes of their UTF-8 encoding.
\<close>

definition invalid_transition_msg :: "string \<Rightarrow> string \<Rightarrow> string" where
  "invalid_transition_msg old new =
     ''transici'' @ [CHR 0xC3, CHR 0xB3] @ ''n inv'' @ [CHR 0xC3, CHR 0xA1] @ ''lida '' @ old @
     '' '' @ [CHR 0xE2, CHR 0x86, CHR 0x92] @ '' '' @ new"

text \<open>\<^verbatim>\<open>UPDATE orders SET status=? [, delivered_at=NOW()] WHERE id=?\<close>\<close>

definition update_status :: "timestamp \<Rightarrow> string \<Rightarrow> int \<Rightarrow> db \<Rightarrow> db" where
  "update_status now NewStatus i d =
     d\<lparr>orders := map (\<lambda>r. if o_ID r = i
                          then (if NewStatus = ''entregado''
                                then r\<lparr>o_Status := NewStatus, o_DeliveredAt := Some now\<rparr>
                                else r\<lparr>o_Status := NewStatus\<rparr>)
                          else r) (orders d)\<rparr>"

record UpdateStatusReq =
  us_NewStatus :: string
  us_Note :: "string option"
  us_ChangedBy :: int

definition updateOrderStatusHandler ::
  "timestamp \<Rightarrow> int \<Rightarrow> UpdateStatusReq \<Rightarrow> db \<Rightarrow> (error + unit) \<times> db" where
  "updateOrderStatusHandler now i req d =
     (if us_NewStatus req = [] \<or> us_ChangedBy req = 0
      then (Inl (BadRequest ''new_status y changed_by requeridos''), d)
      else case QueryRow (select_status d i) of
        None \<Rightarrow> (Inl (NotFound ''pedido no existe''), d)
      | Some old \<Rightarrow>
          if \<not> allowed (valid old) (us_NewStatus req)
          then (Inl (BadRequest (invalid_transition_msg old (us_NewStatus req))), d)
          else (Inr (),
                insert_history now i (Some old) (us_NewStatus req) (us_ChangedBy req) (us_Note req)
                  (update_status now (us_NewStatus req) i d)))"

section \<open>Products, users and customer prices\<close>

record CreateProductReq =
  cpr_Name :: string
  cpr_CapacityLiters :: "decimal option"
  cpr_Price :: decimal
  cpr_IsActive :: "bool option"

definition createProductHandler :: "CreateProductReq \<Rightarrow> db \<Rightarrow> (error + int) \<times> db" where
  "createProductHandler req d =
     (let active = (case cpr_IsActive req of None \<Rightarrow> True | Some a \<Rightarrow> a);
          i = next_product_id d
      in (Inr i,
          d\<lparr>products := products d @
               [\<lparr>p_ID = i, p_Name = cpr_Name req, p_CapacityLiters = cpr_CapacityLiters req,
                 p_Price = cpr_Price req, p_IsActive = active\<rparr>],
            next_product_id := i + 1\<rparr>))"

text \<open>
  \<^verbatim>\<open>RowsAffected\<close> of an \<^verbatim>\<open>UPDATE\<close>: MySQL counts the rows whose stored values changed.
\<close>

definition rows_affected :: "('a \<Rightarrow> bool) \<Rightarrow> ('a \<Rightarrow> 'a) \<Rightarrow> 'a list \<Rightarrow> nat" where
  "rows_affected P f rows = length (filter (\<lambda>r. P r \<and> f r \<noteq> r) rows)"

definition updateProductHandler :: "int \<Rightarrow> CreateProductReq \<Rightarrow> db \<Rightarrow> (error + unit) \<times> db" where
  "updateProductHandler i req d =
     (let active = (case cpr_IsActive req of None \<Rightarrow> True | Some a \<Rightarrow> a);
          f = (\<lambda>p. p\<lparr>p_Name := cpr_Name req, p_CapacityLiters := cpr_CapacityLiters req,
                     p_Price := cpr_Price req, p_IsActive := active\<rparr>);
          n = rows_affected (\<lambda>p. p_ID p = i) f (products d);
          d' = d\<lparr>products := map (\<lambda>p. if p_ID p = i then f p else p) (products d)\<rparr>
      in if n = 0 then (Inl (NotFound ''producto no encontrado''), d') else (Inr (), d'))"

text \<open>\<^verbatim>\<open>deleteProductHandler\<close> is a soft delete: \<^verbatim>\<open>UPDATE products SET is_active=FALSE WHERE id=?\<close>\<close>

definition deleteProductHandler :: "int \<Rightarrow> db \<Rightarrow> (error + unit) \<times> db" where
  "deleteProductHandler i d =
     (let f = (\<lambda>p. p\<lparr>p_IsActive := False\<rparr>);
          n = rows_affected (\<lambda>p. p_ID p = i) f (products d);
          d' = d\<lparr>products := map (\<lambda>p. if p_ID p = i then f p else p) (products d)\<rparr>
      in if n = 0 then (Inl (NotFound ''producto no encontrado''), d') else (Inr (), d'))"

record CreateUserReq =
  cur_RoleID :: int
  cur_FullName :: string
  cur_Phone :: "string option"
  cur_Email :: "string option"
  cur_NumDoc :: "string option"
  cur_Password :: string

definition createUserHandler :: "CreateUserReq \<Rightarrow> db \<Rightarrow> (error + int) \<times> db" where
  "createUserHandler req d =
     (if cur_FullName req = [] \<or> cur_RoleID req = 0 \<or> cur_Password req = []
      then (Inl (BadRequest ''full_name, role_id y password requeridos''), d)
      else let i = next_user_id d
           in (Inr i,
               d\<lparr>users := users d @
                    [\<lparr>u_ID = i, u_RoleID = cur_RoleID req, u_FullName = cur_FullName req,
                      u_Phone = cur_Phone req, u_Email = cur_Email req, u_NumDoc = cur_NumDoc req,
                      u_PasswordHash = cur_Password req, u_IsActive = True\<rparr>],
                 next_user_id := i + 1\<rparr>))"

record UpsertCustomerPriceReq =
  ucp_CustomerID :: int
  ucp_ProductID :: int
  ucp_Price :: decimal
  ucp_IsActive :: "bool option"

text \<open>
  \<^verbatim>\<open>INSERT INTO customer_product_prices(customer_id, product_id, price, is_active)
  VALUES (?,?,?,?) ON DUPLICATE KEY UPDATE price=VALUES(price), is_active=VALUES(is_active)\<close>:
  when a row with the primary key (customer_id, product_id) is stored, its price and
  flag are overwritten and \<^verbatim>\<open>created_at\<close> is kept; otherwise a row is added, with
  \<^verbatim>\<open>created_at\<close> at its default \<^verbatim>\<open>CURRENT_TIMESTAMP\<close>.
\<close>

definition same_key :: "int \<Rightarrow> int \<Rightarrow> CustomerPrice \<Rightarrow> bool" where
  "same_key customer_id product_id c = (cp_CustomerID c = customer_id \<and> cp_ProductID c = product_id)"

definition insert_on_duplicate_key_update ::
  "timestamp \<Rightarrow> int \<Rightarrow> int \<Rightarrow> decimal \<Rightarrow> bool \<Rightarrow> CustomerPrice list \<Rightarrow> CustomerPrice list" where
  "insert_on_duplicate_key_update now customer_id product_id price active rows =
     (case filter (same_key customer_id product_id) rows of
        [] \<Rightarrow> rows @ [\<lparr>cp_CustomerID = customer_id, cp_ProductID = product_id, cp_Price = price,
                        cp_IsActive = active, cp_CreatedAt = now\<rparr>]
      | _ \<Rightarrow> map (\<lambda>c. if same_key customer_id product_id c
                      then c\<lparr>cp_Price := price, cp_IsActive := active\<rparr> else c) rows)"

text \<open>\<^verbatim>\<open>SELECT COUNT(1) FROM products WHERE id=?\<close> and the same on \<^verbatim>\<open>users\<close>.\<close>

definition count_products :: "db \<Rightarrow> int \<Rightarrow> nat" where
  "count_products d i = length (filter (\<lambda>p. p_ID p = i) (products d))"

definition count_users :: "db \<Rightarrow> int \<Rightarrow> nat" where
  "count_users d i = length (filter (\<lambda>u. u_ID u = i) (users d))"

definition upsertCustomerPriceHandler ::
  "timestamp \<Rightarrow> UpsertCustomerPriceReq \<Rightarrow> db \<Rightarrow> (error + unit) \<times> db" where
  "upsertCustomerPriceHandler now req d =
     (if ucp_CustomerID req = 0 \<or> ucp_ProductID req = 0
      then (Inl (BadRequest ''customer_id y product_id requeridos''), d)
      else let active = (case ucp_IsActive req of None \<Rightarrow> True | Some a \<Rightarrow> a)
           in if count_products d (ucp_ProductID req) = 0
              then (Inl (BadRequest (''product_id inv'' @ [CHR 0xC3, CHR 0xA1] @ ''lido'')), d)
              else if count_users d (ucp_CustomerID req) = 0
              then (Inl (BadRequest (''customer_id inv'' @ [CHR 0xC3, CHR 0xA1] @ ''lido'')), d)
              else (Inr (),
                    d\<lparr>customer_product_prices :=
                         insert_on_duplicate_key_update now (ucp_CustomerID req) (ucp_ProductID req)
                           (ucp_Price req) active (customer_product_prices d)\<rparr>))"

text \<open>
  \<^verbatim>\<open>deleteCustomerPriceHandler\<close>: a query parameter is \<open>None\<close> when the string is empty and
  the number MySQL reads the string as otherwise.
\<close>

definition deleteCustomerPriceHandler ::
  "int option \<Rightarrow> int option \<Rightarrow> db \<Rightarrow> (error + unit) \<times> db" where
  "deleteCustomerPriceHandler customerID productID d =
     (case (customerID, productID) of
        (Some c, Some p) \<Rightarrow>
          (Inr (), d\<lparr>customer_product_prices :=
                       filter (\<lambda>r. \<not> same_key c p r) (customer_product_prices d)\<rparr>)
      | _ \<Rightarrow> (Inl (BadRequest ''customer_id y product_id requeridos''), d))"

section \<open>The effective price\<close>

text \<open>
  The join shared by the three price queries, for one row \<open>p\<close> of \<^verbatim>\<open>products\<close>:
  \<^verbatim>\<open>LEFT JOIN customer_product_prices cpp ON cpp.product_id = p.id AND
  cpp.customer_id = ? AND cpp.is_active = TRUE\<close> with the column
  \<^verbatim>\<open>COALESCE(cpp.price, p.price)\<close>. A product row with no matching price row gives one
  row, whose \<^verbatim>\<open>cpp.price\<close> is NULL.
\<close>

definition left_join_price :: "db \<Rightarrow> int \<Rightarrow> Product \<Rightarrow> decimal list" where
  "left_join_price d customer_id p =
     (case filter (\<lambda>c. cp_ProductID c = p_ID p \<and> cp_CustomerID c = customer_id \<and> cp_IsActive c)
             (customer_product_prices d) of
        [] \<Rightarrow> [p_Price p]
      | cs \<Rightarrow> map cp_Price cs)"

text \<open>The query of the first loop of \<^verbatim>\<open>createOrderHandler\<close>: \<^verbatim>\<open>WHERE p.id=? AND p.is_active=TRUE\<close>\<close>

definition select_price_active :: "db \<Rightarrow> int \<Rightarrow> int \<Rightarrow> decimal list" where
  "select_price_active d customer_id product_id =
     concat (map (left_join_price d customer_id)
       (filter (\<lambda>p. p_ID p = product_id \<and> p_IsActive p) (products d)))"

text \<open>The query of the second loop of \<^verbatim>\<open>createOrderHandler\<close>: \<^verbatim>\<open>WHERE p.id=?\<close>\<close>

definition select_price :: "db \<Rightarrow> int \<Rightarrow> int \<Rightarrow> decimal list" where
  "select_price d customer_id product_id =
     concat (map (left_join_price d customer_id)
       (filter (\<lambda>p. p_ID p = product_id) (products d)))"

text \<open>
  \<^verbatim>\<open>listProductsHandler\<close>: with a customer, the joined query
  \<^verbatim>\<open>WHERE p.is_active = TRUE ORDER BY p.id\<close>; without, the active products at their base
  price.
\<close>

definition listProductsHandler :: "int option \<Rightarrow> db \<Rightarrow> Product list" where
  "listProductsHandler customerID d =
     (case customerID of
        Some c \<Rightarrow>
          sort_key p_ID
            (concat (map (\<lambda>p. map (\<lambda>price. p\<lparr>p_Price := price\<rparr>) (left_join_price d c p))
               (filter p_IsActive (products d))))
      | None \<Rightarrow> sort_key p_ID (filter p_IsActive (products d)))"

section \<open>float64\<close>

text \<open>
  Go's \<^verbatim>\<open>float64\<close> is IEEE 754 binary64. A finite value is modelled as the rational
  number it denotes, and an operation as its exact result rounded to the nearest number
  with a significand of 53 bits, a tie going to the even significand. The exponent
  range is left unbounded: amounts read from 2-decimal columns and quantities of type
  \<^verbatim>\<open>int\<close> keep every value far below \<open>2 ^ 1024\<close>, and every nonzero one far above the
  subnormal range.
\<close>

type_synonym float64 = rat

text \<open>The binary exponent of a nonzero number: \<open>2 powi e \<le> \<bar>x\<bar> < 2 powi (e + 1)\<close>.\<close>

definition exponent :: "rat \<Rightarrow> int" where
  "exponent x =
     (let (a, b) = quotient_of \<bar>x\<bar>; k = bitlen a - bitlen b
      in if 2 powi k \<le> \<bar>x\<bar> then k else k - 1)"

definition round_half_even :: "rat \<Rightarrow> int" where
  "round_half_even y =
     (let f = \<lfloor>y\<rfloor>; r = y - of_int f
      in if r < 1 / 2 then f else if 1 / 2 < r then f + 1 else if even f then f else f + 1)"

definition round64 :: "rat \<Rightarrow> float64" where
  "round64 x =
     (if x = 0 then 0
      else let ulp = 2 powi (exponent x - 52)
           in of_int (round_half_even (x / ulp)) * ulp)"

text \<open>
  \<^verbatim>\<open>Scan\<close> of a 2-decimal column into a \<^verbatim>\<open>float64\<close> variable (the decimal text parsed to
  the nearest value), the conversion \<^verbatim>\<open>float64(it.Qty)\<close>, and the operators \<^verbatim>\<open>*\<close> and \<^verbatim>\<open>+\<close>,
  each rounded on its own (the compiler does not fuse them on amd64).
\<close>

definition scan_float64 :: "decimal \<Rightarrow> float64" where
  "scan_float64 p = round64 (of_int p / 100)"

definition float64_of_int :: "int \<Rightarrow> float64" where
  "float64_of_int q = round64 (of_int q)"

definition mul64 :: "float64 \<Rightarrow> float64 \<Rightarrow> float64" where
  "mul64 a b = round64 (a * b)"

definition add64 :: "float64 \<Rightarrow> float64 \<Rightarrow> float64" where
  "add64 a b = round64 (a + b)"

text \<open>
  Modelled from the spec: the column types of the \<^verbatim>\<open>orders\<close> table, whose schema is not
  among the sources. Section 3 of the spec gives subtotal and delivery fee as fixed-point
  currency with 2 decimal places, as the migration does for prices. A \<^verbatim>\<open>float64\<close>
  parameter stored into such a column is rounded to the nearest hundredth, a tie going
  away from zero.
\<close>

definition decimal_of :: "float64 \<Rightarrow> decimal" where
  "decimal_of x = (if 0 \<le> x then \<lfloor>100 * x + 1 / 2\<rfloor> else - \<lfloor>- (100 * x) + 1 / 2\<rfloor>)"

text \<open>\<^verbatim>\<open>effPrice * float64(it.Qty)\<close> for a price read from a column and a quantity.\<close>

definition line64 :: "decimal \<Rightarrow> int \<Rightarrow> float64" where
  "line64 p q = mul64 (scan_float64 p) (float64_of_int q)"

text \<open>The unit roundoff of binary64.\<close>

definition u64 :: rat where
  "u64 = 1 / 2 ^ 53"

section \<open>Orders: creation and reads\<close>

record OrderItemReq =
  ir_ProductID :: int
  ir_Qty :: int

record CreateOrderReq =
  co_CustomerID :: int
  co_AddressID :: int
  co_Items :: "OrderItemReq list"
  co_ScheduledAt :: "timestamp option"
  co_Notes :: "string option"

text \<open>The verb \<^verbatim>\<open>%d\<close> of \<^verbatim>\<open>fmt.Sprintf\<close>: the decimal digits, after a minus sign below zero.\<close>

fun digits :: "nat \<Rightarrow> string" where
  "digits n = (if n < 10 then [char_of (48 + n)] else digits (n div 10) @ [char_of (48 + n mod 10)])"

definition sprint_d :: "int \<Rightarrow> string" where
  "sprint_d i = (if i < 0 then CHR ''-'' # digits (nat (- i)) else digits (nat i))"

definition invalid_product_msg :: "int \<Rightarrow> string" where
  "invalid_product_msg product_id =
     ''producto '' @ sprint_d product_id @ '' no v'' @ [CHR 0xC3, CHR 0xA1] @ ''lido''"

text \<open>
  The first loop of \<^verbatim>\<open>createOrderHandler\<close>: it prices each item with the query that asks
  for an active product, scans the price into the \<^verbatim>\<open>float64\<close> variable \<^verbatim>\<open>effPrice\<close>, adds
  \<^verbatim>\<open>effPrice * float64(it.Qty)\<close> to the \<^verbatim>\<open>float64\<close> variable \<^verbatim>\<open>subtotal\<close>, and answers 400
  at the first item without a row.
\<close>

fun sum_subtotal :: "db \<Rightarrow> int \<Rightarrow> OrderItemReq list \<Rightarrow> float64 \<Rightarrow> error + float64" where
  "sum_subtotal tx customer_id [] subtotal = Inr subtotal"
| "sum_subtotal tx customer_id (it # its) subtotal =
     (case QueryRow (select_price_active tx customer_id (ir_ProductID it)) of
        None \<Rightarrow> Inl (BadRequest (invalid_product_msg (ir_ProductID it)))
      | Some price \<Rightarrow>
          sum_subtotal tx customer_id its
            (add64 subtotal (mul64 (scan_float64 price) (float64_of_int (ir_Qty it)))))"

text \<open>
  The second loop: it reads the unit price again, with the query that does not ask for
  an active product, and inserts the item row. \<^verbatim>\<open>sql.ErrNoRows\<close> is answered with 500.
  The price passes through the \<^verbatim>\<open>float64\<close> variable \<^verbatim>\<open>unitPrice\<close> with no arithmetic on
  it, and is stored as it was read.
\<close>

fun insert_items :: "int \<Rightarrow> int \<Rightarrow> OrderItemReq list \<Rightarrow> db \<Rightarrow> error + db" where
  "insert_items customer_id orderID [] tx = Inr tx"
| "insert_items customer_id orderID (it # its) tx =
     (case QueryRow (select_price tx customer_id (ir_ProductID it)) of
        None \<Rightarrow> Inl (InternalServerError ''sql: no rows in result set'')
      | Some unitPrice \<Rightarrow>
          insert_items customer_id orderID its
            (tx\<lparr>order_items := order_items tx @
                  [\<lparr>oi_ID = next_item_id tx, oi_OrderID = orderID, oi_ProductID = ir_ProductID it,
                    oi_Qty = ir_Qty it, oi_UnitPrice = unitPrice\<rparr>],
                next_item_id := next_item_id tx + 1\<rparr>))"

text \<open>\<^verbatim>\<open>INSERT INTO orders(customer_id, address_id, assigned_driver_id, status, subtotal,
  delivery_fee, notes, scheduled_at)\<close>; \<^verbatim>\<open>LastInsertId\<close> is the counter before the insert.
  The two \<^verbatim>\<open>float64\<close> parameters are rounded into their columns.\<close>

definition insert_order ::
  "timestamp \<Rightarrow> CreateOrderReq \<Rightarrow> float64 \<Rightarrow> float64 \<Rightarrow> db \<Rightarrow> db" where
  "insert_order now req subtotal deliveryFee tx =
     (tx\<lparr>orders := orders tx @
            [\<lparr>o_ID = next_order_id tx, o_CustomerID = co_CustomerID req,
              o_AddressID = co_AddressID req, o_AssignedDriverID = None,
              o_Status = ''por_atender'', o_Subtotal = decimal_of subtotal,
              o_DeliveryFee = decimal_of deliveryFee,
              o_Notes = co_Notes req, o_ScheduledAt = co_ScheduledAt req, o_DeliveredAt = None,
              o_CreatedAt = now\<rparr>],
          next_order_id := next_order_id tx + 1\<rparr>)"

definition createOrderHandler :: "timestamp \<Rightarrow> CreateOrderReq \<Rightarrow> db \<Rightarrow> (error + int) \<times> db" where
  "createOrderHandler now req d =
     (if co_CustomerID req = 0 \<or> co_AddressID req = 0 \<or> length (co_Items req) = 0
      then (Inl (BadRequest ''customer_id, address_id e items requeridos''), d)
      else case sum_subtotal d (co_CustomerID req) (co_Items req) 0 of
        Inl e \<Rightarrow> (Inl e, d)
      | Inr subtotal \<Rightarrow>
          (let deliveryFee = 0;
               tx1 = insert_order now req subtotal deliveryFee d;
               orderID = next_order_id d
           in (case insert_items (co_CustomerID req) orderID (co_Items req) tx1 of
                 Inl e \<Rightarrow> (Inl e, d)
               | Inr tx2 \<Rightarrow>
                   (Inr orderID,
                    insert_history now orderID None ''por_atender'' (co_CustomerID req)
                      (Some ''Pedido creado'') tx2))))"

text \<open>The rows the read handlers answer with: the stored row and the computed columns.\<close>

record OrderJSON = Order +
  o_Total :: decimal

record OrderItemJSON = OrderItem +
  oi_LineTotal :: decimal
  oi_ProductName :: string
  oi_Capacity :: "decimal option"

text \<open>The column list of both order reads, with \<^verbatim>\<open>(subtotal+delivery_fee) AS total\<close>.\<close>

definition select_order :: "Order \<Rightarrow> OrderJSON" where
  "select_order r = Order.extend r (OrderJSON.fields (o_Subtotal r + o_DeliveryFee r))"

text \<open>
  \<^verbatim>\<open>listOrdersHandler\<close>: the customer filter is tested first, then the driver filter;
  only the unfiltered query has \<^verbatim>\<open>LIMIT 50\<close>. \<^verbatim>\<open>ORDER BY id DESC\<close> is the ascending
  sort reversed.
\<close>

definition order_by_id_desc :: "Order list \<Rightarrow> Order list" where
  "order_by_id_desc rows = rev (sort_key o_ID rows)"

definition listOrdersHandler :: "int option \<Rightarrow> int option \<Rightarrow> db \<Rightarrow> OrderJSON list" where
  "listOrdersHandler customerID driverID d =
     map select_order
       (case customerID of
          Some c \<Rightarrow> order_by_id_desc (filter (\<lambda>r. o_CustomerID r = c) (orders d))
        | None \<Rightarrow>
            (case driverID of
               Some drv \<Rightarrow> order_by_id_desc (filter (\<lambda>r. o_AssignedDriverID r = Some drv) (orders d))
             | None \<Rightarrow> take 50 (order_by_id_desc (orders d))))"

text \<open>
  The item query of \<^verbatim>\<open>getOrderHandler\<close>: \<^verbatim>\<open>order_items oi JOIN products p ON
  p.id=oi.product_id WHERE oi.order_id=?\<close>, with \<^verbatim>\<open>(oi.qty*oi.unit_price) AS line_total\<close>.
\<close>

definition select_items :: "db \<Rightarrow> int \<Rightarrow> OrderItemJSON list" where
  "select_items d i =
     concat (map (\<lambda>it. map (\<lambda>p. OrderItem.extend it
                                   (OrderItemJSON.fields (oi_Qty it * oi_UnitPrice it) (p_Name p)
                                      (p_CapacityLiters p)))
                         (filter (\<lambda>p. p_ID p = oi_ProductID it) (products d)))
               (filter (\<lambda>it. oi_OrderID it = i) (order_items d)))"

definition getOrderHandler :: "int \<Rightarrow> db \<Rightarrow> error + OrderJSON \<times> OrderItemJSON list" where
  "getOrderHandler i d =
     (case QueryRow (map select_order (orders_where_id d i)) of
        None \<Rightarrow> Inl (NotFound ''no encontrado'')
      | Some ord \<Rightarrow> Inr (ord, select_items d i))"

section \<open>Primary keys\<close>

text \<open>
  The key of a row of \<^verbatim>\<open>customer_product_prices\<close>, and the uniqueness the database
  enforces: \<^verbatim>\<open>PRIMARY KEY (customer_id, product_id)\<close> of the migration, and the
  \<^verbatim>\<open>id\<close> of \<^verbatim>\<open>products\<close>, which the code reads with \<^verbatim>\<open>LastInsertId\<close>.
\<close>

definition price_key :: "CustomerPrice \<Rightarrow> int \<times> int" where
  "price_key r = (cp_CustomerID r, cp_ProductID r)"

definition primary_keys :: "db \<Rightarrow> bool" where
  "primary_keys d \<longleftrightarrow>
     distinct (map p_ID (products d)) \<and> distinct (map price_key (customer_product_prices d))"

section \<open>Runs of the service\<close>

text \<open>
  The requests that write the tables of this model, and the database after serving one.
  The routes left out (\<^verbatim>\<open>PUT /users/:id\<close>, \<^verbatim>\<open>POST /addresses\<close> and the reads) write
  none of \<^verbatim>\<open>products\<close>, \<^verbatim>\<open>orders\<close> and \<^verbatim>\<open>order_items\<close>.
\<close>

datatype request =
  CreateUser CreateUserReq
  | CreateProduct CreateProductReq
  | UpdateProduct int CreateProductReq
  | DeleteProduct int
  | UpsertCustomerPrice timestamp UpsertCustomerPriceReq
  | DeleteCustomerPrice "int option" "int option"
  | CreateOrder timestamp CreateOrderReq
  | AssignOrder timestamp int int
  | UpdateOrderStatus timestamp int UpdateStatusReq

fun serve :: "request \<Rightarrow> db \<Rightarrow> db" where
  "serve (CreateUser req) d = snd (createUserHandler req d)"
| "serve (CreateProduct req) d = snd (createProductHandler req d)"
| "serve (UpdateProduct i req) d = snd (updateProductHandler i req d)"
| "serve (DeleteProduct i) d = snd (deleteProductHandler i d)"
| "serve (UpsertCustomerPrice now req) d = snd (upsertCustomerPriceHandler now req d)"
| "serve (DeleteCustomerPrice customerID productID) d =
     snd (deleteCustomerPriceHandler customerID productID d)"
| "serve (CreateOrder now req) d = snd (createOrderHandler now req d)"
| "serve (AssignOrder now i DriverID) d = snd (assignOrderHandler now i DriverID d)"
| "serve (UpdateOrderStatus now i req) d = snd (updateOrderStatusHandler now i req d)"

text \<open>The database before the first request: empty tables, counters at 1.\<close>

definition empty_db :: db where
  "empty_db =
     \<lparr>users = [], products = [], customer_product_prices = [], orders = [], order_items = [],
      order_status_history = [], next_user_id = 1, next_product_id = 1, next_order_id = 1,
      next_item_id = 1, next_history_id = 1\<rparr>"

text \<open>
  The stored items of an order and the sum of \<^verbatim>\<open>qty * unit_price\<close> over them, in
  hundredths.
\<close>

definition items_of :: "db \<Rightarrow> int \<Rightarrow> OrderItem list" where
  "items_of d i = filter (\<lambda>it. oi_OrderID it = i) (order_items d)"

definition items_sum :: "db \<Rightarrow> int \<Rightarrow> decimal" where
  "items_sum d i = (\<Sum>it\<leftarrow>items_of d i. oi_Qty it * oi_UnitPrice it)"

text \<open>
  An order is within the precision of the \<^verbatim>\<open>float64\<close> sum when the number of its items
  plus one, times the sum of the magnitudes of its line totals, is at most \<open>10 ^ 15\<close>
  hundredths (\<open>10 ^ 13\<close> units of currency).
\<close>

definition within_precision :: "db \<Rightarrow> int \<Rightarrow> bool" where
  "within_precision d i \<longleftrightarrow>
     (int (length (items_of d i)) + 1) * (\<Sum>it\<leftarrow>items_of d i. \<bar>oi_Qty it * oi_UnitPrice it\<bar>)
       \<le> 10 ^ 15"

text \<open>
  The consistency every run keeps: ids below their counters and distinct, every item on
  a stored product, and every order with a delivery fee of 0 and, when it is within the
  precision, a subtotal equal to the sum over its items.
\<close>

definition consistent :: "db \<Rightarrow> bool" where
  "consistent d \<longleftrightarrow>
     distinct (map p_ID (products d)) \<and>
     (\<forall>p \<in> set (products d). p_ID p < next_product_id d) \<and>
     distinct (map o_ID (orders d)) \<and>
     (\<forall>r \<in> set (orders d). o_ID r < next_order_id d) \<and>
     (\<forall>it \<in> set (order_items d).
        oi_OrderID it < next_order_id d \<and> oi_ProductID it \<in> set (map p_ID (products d))) \<and>
     (\<forall>r \<in> set (orders d).
        o_DeliveryFee r = 0 \<and>
        (within_precision d (o_ID r) \<longrightarrow> o_Subtotal r = items_sum d (o_ID r)))"

section \<open>A concrete database\<close>

text \<open>
  A small store used to run the handlers on: a customer (user 1) and a driver (user 2),
  an active and an inactive product, one active customer price, an assigned order and a
  pending one. Amounts are in hundredths.
\<close>

definition shop :: db where
  "shop =
     \<lparr>users =
        [\<lparr>u_ID = 1, u_RoleID = 3, u_FullName = ''Ana'', u_Phone = None, u_Email = None,
          u_NumDoc = None, u_PasswordHash = ''a'', u_IsActive = True\<rparr>,
         \<lparr>u_ID = 2, u_RoleID = 2, u_FullName = ''Luis'', u_Phone = None, u_Email = None,
          u_NumDoc = None, u_PasswordHash = ''b'', u_IsActive = True\<rparr>],
      products =
        [\<lparr>p_ID = 1, p_Name = ''Bidon 20L'', p_CapacityLiters = Some 2000, p_Price = 1000,
          p_IsActive = True\<rparr>,
         \<lparr>p_ID = 2, p_Name = ''Bidon 10L'', p_CapacityLiters = Some 1000, p_Price = 600,
          p_IsActive = False\<rparr>],
      customer_product_prices =
        [\<lparr>cp_CustomerID = 1, cp_ProductID = 1, cp_Price = 850, cp_IsActive = True,
          cp_CreatedAt = 3\<rparr>],
      orders =
        [\<lparr>o_ID = 1, o_CustomerID = 1, o_AddressID = 1, o_AssignedDriverID = Some 2,
          o_Status = ''asignado'', o_Subtotal = 1700, o_DeliveryFee = 0, o_Notes = None,
          o_ScheduledAt = None, o_DeliveredAt = None, o_CreatedAt = 4\<rparr>,
         \<lparr>o_ID = 2, o_CustomerID = 1, o_AddressID = 1, o_AssignedDriverID = None,
          o_Status = ''por_atender'', o_Subtotal = 850, o_DeliveryFee = 0, o_Notes = None,
          o_ScheduledAt = None, o_DeliveredAt = None, o_CreatedAt = 6\<rparr>],
      order_items =
        [\<lparr>oi_ID = 1, oi_OrderID = 1, oi_ProductID = 1, oi_Qty = 2, oi_UnitPrice = 850\<rparr>,
         \<lparr>oi_ID = 2, oi_OrderID = 2, oi_ProductID = 1, oi_Qty = 1, oi_UnitPrice = 850\<rparr>],
      order_status_history =
        [\<lparr>h_ID = 1, h_OrderID = 1, h_OldStatus = None, h_NewStatus = ''por_atender'',
          h_ChangedBy = 1, h_ChangedAt = 4, h_Note = Some ''Pedido creado''\<rparr>,
         \<lparr>h_ID = 2, h_OrderID = 1, h_OldStatus = Some ''por_atender'', h_NewStatus = ''asignado'',
          h_ChangedBy = 2, h_ChangedAt = 5, h_Note = Some ''Asignado a repartidor''\<rparr>,
         \<lparr>h_ID = 3, h_OrderID = 2, h_OldStatus = None, h_NewStatus = ''por_atender'',
          h_ChangedBy = 1, h_ChangedAt = 6, h_Note = Some ''Pedido creado''\<rparr>],
      next_user_id = 3, next_product_id = 3, next_order_id = 3, next_item_id = 3,
      next_history_id = 4\<rparr>"


text \<open>A run: a product, a customer, an override, an order, then a price change and the
  removal of the override.\<close>

definition day :: "request list" where
  "day =
     [CreateProduct \<lparr>cpr_Name = ''Bidon 20L'', cpr_CapacityLiters = Some 2000, cpr_Price = 1000,
                      cpr_IsActive = None\<rparr>,
      CreateUser \<lparr>cur_RoleID = 3, cur_FullName = ''Ana'', cur_Phone = None, cur_Email = None,
                   cur_NumDoc = None, cur_Password = ''a''\<rparr>,
      UpsertCustomerPrice 3 \<lparr>ucp_CustomerID = 1, ucp_ProductID = 1, ucp_Price = 850,
                              ucp_IsActive = None\<rparr>,
      CreateOrder 4 \<lparr>co_CustomerID = 1, co_AddressID = 1,
                      co_Items = [\<lparr>ir_ProductID = 1, ir_Qty = 2\<rparr>],
                      co_ScheduledAt = None, co_Notes = None\<rparr>,
      UpdateProduct 1 \<lparr>cpr_Name = ''Bidon 20L'', cpr_CapacityLiters = Some 2000, cpr_Price = 1200,
                        cpr_IsActive = None\<rparr>,
      DeleteCustomerPrice (Some 1) (Some 1)]"

text \<open>
  A run whose one order has three items: 2000000000 of a product at 50000.00, one of a
  product at 0.01, and -2000000000 of the first product.
\<close>

definition rounding_day :: "request list" where
  "rounding_day =
     [CreateProduct \<lparr>cpr_Name = ''Cisterna'', cpr_CapacityLiters = None, cpr_Price = 5000000,
                      cpr_IsActive = None\<rparr>,
      CreateProduct \<lparr>cpr_Name = ''Tapa'', cpr_CapacityLiters = None, cpr_Price = 1,
                      cpr_IsActive = None\<rparr>,
      CreateUser \<lparr>cur_RoleID = 3, cur_FullName = ''Ana'', cur_Phone = None, cur_Email = None,
                   cur_NumDoc = None, cur_Password = ''a''\<rparr>,
      CreateOrder 4 \<lparr>co_CustomerID = 1, co_AddressID = 1,
                      co_Items = [\<lparr>ir_ProductID = 1, ir_Qty = 2000000000\<rparr>,
                                  \<lparr>ir_ProductID = 2, ir_Qty = 1\<rparr>,
                                  \<lparr>ir_ProductID = 1, ir_Qty = - 2000000000\<rparr>],
                      co_ScheduledAt = None, co_Notes = None\<rparr>]"

section \<open>Facts about the queries\<close>

lemma QueryRow_map: "QueryRow (map f rows) = map_option f (QueryRow rows)"
  by (cases rows) (simp_all add: QueryRow_def)

lemma filter_id_map:
  "(\<And>r. o_ID (f r) = o_ID r) \<Longrightarrow>
   filter (\<lambda>r. o_ID r = j) (map (\<lambda>r. if o_ID r = i then f r else r) rows) =
   map (\<lambda>r. if o_ID r = i then f r else r) (filter (\<lambda>r. o_ID r = j) rows)"
  by (induction rows) auto

lemma orders_insert_history [simp]:
  "orders (insert_history now i old new by note d) = orders d"
  by (simp add: insert_history_def)

lemma where_id_insert_history [simp]:
  "orders_where_id (insert_history now i old new by note d) j = orders_where_id d j"
  by (simp add: orders_where_id_def)

lemma select_status_insert_history [simp]:
  "select_status (insert_history now i old new by note d) j = select_status d j"
  by (simp add: select_status_def)

lemma where_id_update_assign:
  "orders_where_id (update_assign drv i d) j =
   map (\<lambda>r. if o_ID r = i then r\<lparr>o_AssignedDriverID := Some drv, o_Status := ''asignado''\<rparr> else r)
     (orders_where_id d j)"
  unfolding orders_where_id_def update_assign_def
  by (simp add: filter_id_map [where f = "\<lambda>r. r\<lparr>o_AssignedDriverID := Some drv, o_Status := ''asignado''\<rparr>"])

lemma where_id_update_status:
  "orders_where_id (update_status now new i d) j =
   map (\<lambda>r. if o_ID r = i then (if new = ''entregado'' then r\<lparr>o_Status := new, o_DeliveredAt := Some now\<rparr> else r\<lparr>o_Status := new\<rparr>) else r)
     (orders_where_id d j)"
  unfolding orders_where_id_def update_status_def
  by (simp add: filter_id_map [where f = "\<lambda>r. (if new = ''entregado'' then r\<lparr>o_Status := new, o_DeliveredAt := Some now\<rparr> else r\<lparr>o_Status := new\<rparr>)"])

lemma QueryRow_Some_mem: "QueryRow rows = Some r \<Longrightarrow> r \<in> set rows"
  by (cases rows) (simp_all add: QueryRow_def)

lemma QueryRow_where_id: "QueryRow (orders_where_id d i) = Some r \<Longrightarrow> o_ID r = i"
  by (drule QueryRow_Some_mem) (simp add: orders_where_id_def)

lemma allowed_iff: "allowed ss new \<longleftrightarrow> new \<in> set ss"
  by (induction ss) auto

lemma sublist_msg_old: "sublist old (invalid_transition_msg old new)"
proof -
  have "invalid_transition_msg old new =
        (''transici'' @ [CHR 0xC3, CHR 0xB3] @ ''n inv'' @ [CHR 0xC3, CHR 0xA1] @ ''lida '') @ old @
        ('' '' @ [CHR 0xE2, CHR 0x86, CHR 0x92] @ '' '' @ new)"
    by (simp add: invalid_transition_msg_def)
  then show ?thesis
    by (simp only: sublist_appendI)
qed

lemma sublist_msg_new: "sublist new (invalid_transition_msg old new)"
proof -
  have "invalid_transition_msg old new =
        (''transici'' @ [CHR 0xC3, CHR 0xB3] @ ''n inv'' @ [CHR 0xC3, CHR 0xA1] @ ''lida '' @ old @
         '' '' @ [CHR 0xE2, CHR 0x86, CHR 0x92] @ '' '') @ new"
    by (simp add: invalid_transition_msg_def)
  then show ?thesis
    by (simp only: sublist_append_leftI)
qed

lemma valid_set:
  "new \<in> set (valid old) \<longleftrightarrow>
   (old, new) \<in> {(''por_atender'', ''asignado''), (''por_atender'', ''cancelado''),
                 (''asignado'', ''en_camino''), (''asignado'', ''cancelado''),
                 (''en_camino'', ''entregado'')}"
  by (auto simp: valid_def)

lemma QueryRow_status:
  "QueryRow (select_status d i) = map_option o_Status (QueryRow (orders_where_id d i))"
  by (simp add: select_status_def QueryRow_map)

lemma filter_others_map:
  "(\<And>r. o_ID (f r) = o_ID r) \<Longrightarrow>
   filter (\<lambda>r. o_ID r \<noteq> i) (map (\<lambda>r. if o_ID r = i then f r else r) rows) =
   filter (\<lambda>r. o_ID r \<noteq> i) rows"
  by (induction rows) auto

lemma others_update_status:
  "filter (\<lambda>r. o_ID r \<noteq> i) (orders (update_status now new i d)) =
   filter (\<lambda>r. o_ID r \<noteq> i) (orders d)"
  unfolding update_status_def
  by (simp add: filter_others_map [where f = "\<lambda>r. (if new = ''entregado'' then r\<lparr>o_Status := new, o_DeliveredAt := Some now\<rparr> else r\<lparr>o_Status := new\<rparr>)"])

lemma distinct_map_filter_eq:
  "distinct (map f xs) \<Longrightarrow> x \<in> set xs \<Longrightarrow> filter (\<lambda>y. f y = f x) xs = [x]"
proof (induction xs)
  case Nil
  then show ?case by simp
next
  case (Cons a xs)
  show ?case
  proof (cases "a = x")
    case True
    with Cons.prems have "f x \<notin> f ` set xs" by simp
    then have "\<forall>y \<in> set xs. f y \<noteq> f x" by (metis imageI)
    then have "filter (\<lambda>y. f y = f x) xs = []" by (simp add: filter_empty_conv)
    with True show ?thesis by simp
  next
    case False
    with Cons.prems have "x \<in> set xs" "f a \<noteq> f x" by auto
    with Cons show ?thesis by simp
  qed
qed

lemma filter_active_product:
  assumes "distinct (map p_ID (products d))" "p \<in> set (products d)"
  shows "filter (\<lambda>q. p_ID q = p_ID p) (products d) = [p]"
  using distinct_map_filter_eq [OF assms] .

lemma same_key_price_key: "same_key c pid r \<longleftrightarrow> price_key r = (c, pid)"
  by (auto simp: same_key_def price_key_def)

lemma filter_price_key:
  assumes "distinct (map price_key (customer_product_prices d))" "r \<in> set (customer_product_prices d)"
    "same_key c pid r"
  shows "filter (same_key c pid) (customer_product_prices d) = [r]"
proof -
  from assms(3) have "same_key c pid = (\<lambda>y. price_key y = price_key r)"
    by (auto simp: same_key_price_key)
  with distinct_map_filter_eq [OF assms(1,2)] show ?thesis by simp
qed

lemma join_filter:
  "filter (\<lambda>r. cp_ProductID r = pid \<and> cp_CustomerID r = c \<and> cp_IsActive r) rows =
   filter cp_IsActive (filter (same_key c pid) rows)"
  by (induction rows) (auto simp: same_key_def)

lemma left_join_price_override:
  assumes "distinct (map price_key (customer_product_prices d))" "r \<in> set (customer_product_prices d)"
    "same_key c (p_ID p) r"
  shows "left_join_price d c p = [if cp_IsActive r then cp_Price r else p_Price p]"
  by (simp add: left_join_price_def join_filter filter_price_key [OF assms])

lemma left_join_price_base:
  assumes "\<forall>r \<in> set (customer_product_prices d). same_key c (p_ID p) r \<longrightarrow> \<not> cp_IsActive r"
  shows "left_join_price d c p = [p_Price p]"
proof -
  from assms have "filter cp_IsActive (filter (same_key c (p_ID p)) (customer_product_prices d)) = []"
    by (auto simp: filter_empty_conv)
  then show ?thesis by (simp add: left_join_price_def join_filter)
qed

lemma select_price_active_product:
  assumes "distinct (map p_ID (products d))" "p \<in> set (products d)" "p_IsActive p"
  shows "select_price_active d c (p_ID p) = left_join_price d c p"
proof -
  have "filter (\<lambda>q. p_ID q = p_ID p \<and> p_IsActive q) (products d) =
        filter p_IsActive (filter (\<lambda>q. p_ID q = p_ID p) (products d))"
    by (simp add: conj_commute)
  with assms show ?thesis
    by (simp add: select_price_active_def filter_active_product)
qed

lemma bulk_rows_of:
  "map (\<lambda>q. (p_ID q, p_Price q))
     (filter (\<lambda>q. p_ID q = pid)
        (concat (map (\<lambda>p. map (\<lambda>price. p\<lparr>p_Price := price\<rparr>) (left_join_price d c p)) ps))) =
   map (Pair pid) (concat (map (left_join_price d c) (filter (\<lambda>p. p_ID p = pid) ps)))"
  by (induction ps) (simp_all add: filter_map comp_def)

lemma bulk_rows:
  "map (\<lambda>q. (p_ID q, p_Price q)) (filter (\<lambda>q. p_ID q = pid) (listProductsHandler (Some c) d)) =
   map (Pair pid) (select_price_active d c pid)"
proof -
  have "filter (\<lambda>q. p_ID q = pid) (filter p_IsActive (products d)) =
        filter (\<lambda>p. p_ID p = pid \<and> p_IsActive p) (products d)"
    by (simp add: conj_commute)
  then show ?thesis
    by (simp add: listProductsHandler_def select_price_active_def sort_key_stable bulk_rows_of)
qed


lemma map_no_match:
  "filter P rows = [] \<Longrightarrow> map (\<lambda>r. if P r then f r else r) rows = rows"
  by (induction rows) (auto split: if_splits)

lemma filter_map_update:
  "(\<And>r. P (f r) = P r) \<Longrightarrow>
   filter P (map (\<lambda>r. if P r then f r else r) rows) = map f (filter P rows)"
  by (induction rows) auto

lemma upsert_rows_twice:
  "insert_on_duplicate_key_update now' c p price a
     (insert_on_duplicate_key_update now c p price a rows) =
   insert_on_duplicate_key_update now c p price a rows"
proof (cases "filter (same_key c p) rows")
  case Nil
  let ?new = "\<lparr>cp_CustomerID = c, cp_ProductID = p, cp_Price = price, cp_IsActive = a,
               cp_CreatedAt = now\<rparr>"
  let ?upd = "\<lambda>r. if same_key c p r then r\<lparr>cp_Price := price, cp_IsActive := a\<rparr> else r"
  from Nil have 1: "insert_on_duplicate_key_update now c p price a rows = rows @ [?new]"
    by (simp add: insert_on_duplicate_key_update_def)
  from Nil have 2: "map ?upd rows = rows"
    by (rule map_no_match)
  have 3: "same_key c p ?new"
    by (simp add: same_key_def)
  from Nil 3 have "filter (same_key c p) (rows @ [?new]) = [?new]"
    by simp
  then have "insert_on_duplicate_key_update now' c p price a (rows @ [?new]) = map ?upd (rows @ [?new])"
    by (simp add: insert_on_duplicate_key_update_def)
  also have "\<dots> = rows @ [?new]"
    using 2 3 by simp
  finally show ?thesis
    by (simp only: 1)
next
  case (Cons r rs)
  let ?f = "\<lambda>r. r\<lparr>cp_Price := price, cp_IsActive := a\<rparr>"
  let ?upd = "\<lambda>r. if same_key c p r then ?f r else r"
  from Cons have 1: "insert_on_duplicate_key_update now c p price a rows = map ?upd rows"
    by (simp add: insert_on_duplicate_key_update_def)
  have "filter (same_key c p) (map ?upd rows) = map ?f (filter (same_key c p) rows)"
    by (rule filter_map_update) (simp add: same_key_def)
  with Cons have "filter (same_key c p) (map ?upd rows) = ?f r # map ?f rs"
    by simp
  then have "insert_on_duplicate_key_update now' c p price a (map ?upd rows) = map ?upd (map ?upd rows)"
    by (simp add: insert_on_duplicate_key_update_def)
  also have "\<dots> = map ?upd rows"
    by (simp add: same_key_def)
  finally show ?thesis
    by (simp only: 1)
qed

lemma upsert_rows_keys:
  "map price_key (insert_on_duplicate_key_update now c p price a rows) =
   (if filter (same_key c p) rows = [] then map price_key rows @ [(c, p)] else map price_key rows)"
proof -
  have "map price_key (map (\<lambda>r. if same_key c p r then r\<lparr>cp_Price := price, cp_IsActive := a\<rparr> else r) rows) =
        map price_key rows"
    by (induction rows) (simp_all add: price_key_def)
  then show ?thesis
    by (simp add: insert_on_duplicate_key_update_def price_key_def split: list.splits)
qed

lemma upsert_rows_distinct:
  assumes "distinct (map price_key rows)"
  shows "distinct (map price_key (insert_on_duplicate_key_update now c p price a rows))"
proof (cases "filter (same_key c p) rows = []")
  case True
  then have "(c, p) \<notin> set (map price_key rows)"
    by (auto simp: filter_empty_conv same_key_price_key)
  with assms True show ?thesis
    by (simp add: upsert_rows_keys)
next
  case False
  with assms show ?thesis
    by (simp add: upsert_rows_keys)
qed

lemma upsert_rows_value:
  "r \<in> set (insert_on_duplicate_key_update now c p price a rows) \<Longrightarrow> same_key c p r \<Longrightarrow>
   cp_Price r = price \<and> cp_IsActive r = a"
  by (cases "filter (same_key c p) rows")
    (auto simp: insert_on_duplicate_key_update_def filter_empty_conv split: if_splits)

lemma upsert_rows_present:
  "\<exists>r \<in> set (insert_on_duplicate_key_update now c p price a rows). same_key c p r"
proof (cases "filter (same_key c p) rows")
  case Nil
  then show ?thesis
    by (simp add: insert_on_duplicate_key_update_def same_key_def)
next
  case (Cons r rs)
  then have "r \<in> set (filter (same_key c p) rows)" by simp
  then have "r \<in> set rows" "same_key c p r" by simp_all
  then have "r\<lparr>cp_Price := price, cp_IsActive := a\<rparr> \<in>
      set (map (\<lambda>r. if same_key c p r then r\<lparr>cp_Price := price, cp_IsActive := a\<rparr> else r) rows)"
    by force
  moreover have "same_key c p (r\<lparr>cp_Price := price, cp_IsActive := a\<rparr>)"
    using \<open>same_key c p r\<close> by (simp add: same_key_def)
  ultimately show ?thesis
    using Cons by (auto simp: insert_on_duplicate_key_update_def)
qed

lemma upsert_success:
  assumes "upsertCustomerPriceHandler now req d = (Inr (), d1)"
  shows "d1 = d\<lparr>customer_product_prices :=
                 insert_on_duplicate_key_update now (ucp_CustomerID req) (ucp_ProductID req)
                   (ucp_Price req) (case ucp_IsActive req of None \<Rightarrow> True | Some a \<Rightarrow> a)
                   (customer_product_prices d)\<rparr>"
    and "ucp_CustomerID req \<noteq> 0" and "ucp_ProductID req \<noteq> 0"
    and "count_products d (ucp_ProductID req) \<noteq> 0" and "count_users d (ucp_CustomerID req) \<noteq> 0"
  using assms by (auto simp: upsertCustomerPriceHandler_def Let_def split: if_splits)

lemma resolve_override:
  assumes "primary_keys d" "p \<in> set (products d)" "p_IsActive p"
    and "r \<in> set (customer_product_prices d)" "same_key c (p_ID p) r" "cp_IsActive r"
  shows "QueryRow (select_price_active d c (p_ID p)) = Some (cp_Price r)"
  using assms
  by (simp add: primary_keys_def select_price_active_product left_join_price_override QueryRow_def)

lemma resolve_base:
  assumes "primary_keys d" "p \<in> set (products d)" "p_IsActive p"
    and "\<forall>r \<in> set (customer_product_prices d). same_key c (p_ID p) r \<longrightarrow> \<not> cp_IsActive r"
  shows "QueryRow (select_price_active d c (p_ID p)) = Some (p_Price p)"
  using assms
  by (simp add: primary_keys_def select_price_active_product left_join_price_base QueryRow_def)

lemma bulk_prices:
  "map p_Price (filter (\<lambda>q. p_ID q = pid) (listProductsHandler (Some c) d)) =
   select_price_active d c pid"
proof -
  have "map snd (map (\<lambda>q. (p_ID q, p_Price q)) (filter (\<lambda>q. p_ID q = pid) (listProductsHandler (Some c) d))) =
        map snd (map (Pair pid) (select_price_active d c pid))"
    by (simp only: bulk_rows)
  then show ?thesis
    by (simp add: comp_def)
qed

lemma select_price_active_single:
  assumes "primary_keys d" "p \<in> set (products d)" "p_IsActive p"
  shows "\<exists>x. select_price_active d c (p_ID p) = [x]"
proof (cases "\<exists>r \<in> set (customer_product_prices d). same_key c (p_ID p) r")
  case True
  with assms show ?thesis
    by (auto simp: primary_keys_def select_price_active_product left_join_price_override)
next
  case False
  with assms show ?thesis
    by (simp add: primary_keys_def select_price_active_product left_join_price_base)
qed

lemma bulk_single:
  assumes "primary_keys d" "p \<in> set (products d)" "p_IsActive p"
  shows "map (\<lambda>q. Some (p_Price q)) (filter (\<lambda>q. p_ID q = p_ID p) (listProductsHandler (Some c) d)) =
         [QueryRow (select_price_active d c (p_ID p))]"
proof -
  from select_price_active_single [OF assms] obtain x where "select_price_active d c (p_ID p) = [x]"
    by blast
  then have "map p_Price (filter (\<lambda>q. p_ID q = p_ID p) (listProductsHandler (Some c) d)) = [x]"
    "QueryRow (select_price_active d c (p_ID p)) = Some x"
    by (simp_all add: bulk_prices QueryRow_def)
  then show ?thesis
    by (auto simp: map_eq_Cons_conv)
qed

section \<open>Facts about float64\<close>

lemma round_half_even_error: "\<bar>of_int (round_half_even y) - y\<bar> \<le> 1 / 2"
proof -
  have "of_int \<lfloor>y\<rfloor> \<le> y" "y < of_int \<lfloor>y\<rfloor> + 1"
    by linarith+
  then show ?thesis
    by (auto simp: round_half_even_def Let_def)
qed

lemma exponent_le:
  assumes "x \<noteq> 0"
  shows "2 powi (exponent x) \<le> \<bar>x\<bar>"
proof -
  obtain a b where q: "quotient_of \<bar>x\<bar> = (a, b)"
    by (cases "quotient_of \<bar>x\<bar>")
  then have x: "\<bar>x\<bar> = of_int a / of_int b" and b: "0 < b"
    by (simp_all add: quotient_of_div quotient_of_denom_pos)
  from assms have "0 < \<bar>x\<bar>" by simp
  with x b have a: "0 < a"
    by (simp add: zero_less_divide_iff)
  define k where "k = bitlen a - bitlen b"
  have "2 powi (k - 1) \<le> \<bar>x\<bar>"
  proof -
    from bitlen_bounds [OF a] have "(2::int) ^ nat (bitlen a - 1) \<le> a" ..
    then have "(of_int ((2::int) ^ nat (bitlen a - 1)) :: rat) \<le> of_int a"
      by (simp only: of_int_le_iff)
    then have la: "(2::rat) ^ nat (bitlen a - 1) \<le> of_int a"
      by simp
    from bitlen_bounds [OF b] have "b < (2::int) ^ nat (bitlen b)" ..
    then have "(of_int b :: rat) < of_int ((2::int) ^ nat (bitlen b))"
      by (simp only: of_int_less_iff)
    then have lb: "(of_int b :: rat) \<le> 2 ^ nat (bitlen b)"
      by simp
    from a b have pa: "1 \<le> bitlen a" and pb: "0 \<le> bitlen b"
      by (auto simp: bitlen_alt_def)
    have "(2::rat) powi (k - 1) = 2 powi (bitlen a - 1) / 2 powi (bitlen b)"
      by (simp add: k_def power_int_diff)
    also have "\<dots> = 2 ^ nat (bitlen a - 1) / 2 ^ nat (bitlen b)"
      using pa pb by (simp add: power_int_def)
    also have "\<dots> \<le> of_int a / of_int b"
      using la lb a b by (intro frac_le) simp_all
    finally show ?thesis
      by (simp only: x)
  qed
  then show ?thesis
    by (simp add: exponent_def q k_def Let_def)
qed

lemma exponent_less:
  assumes "x \<noteq> 0"
  shows "\<bar>x\<bar> < 2 powi (exponent x + 1)"
proof -
  obtain a b where q: "quotient_of \<bar>x\<bar> = (a, b)"
    by (cases "quotient_of \<bar>x\<bar>")
  then have x: "\<bar>x\<bar> = of_int a / of_int b" and b: "0 < b"
    by (simp_all add: quotient_of_div quotient_of_denom_pos)
  from assms have "0 < \<bar>x\<bar>" by simp
  with x b have a: "0 < a"
    by (simp add: zero_less_divide_iff)
  define k where "k = bitlen a - bitlen b"
  have "\<bar>x\<bar> < 2 powi (k + 1)"
  proof -
    from bitlen_bounds [OF a] have "a < (2::int) ^ nat (bitlen a)" ..
    then have "(of_int a :: rat) < of_int ((2::int) ^ nat (bitlen a))"
      by (simp only: of_int_less_iff)
    then have la: "(of_int a :: rat) < 2 ^ nat (bitlen a)"
      by simp
    from bitlen_bounds [OF b] have "(2::int) ^ nat (bitlen b - 1) \<le> b" ..
    then have "(of_int ((2::int) ^ nat (bitlen b - 1)) :: rat) \<le> of_int b"
      by (simp only: of_int_le_iff)
    then have lb: "(2::rat) ^ nat (bitlen b - 1) \<le> of_int b"
      by simp
    from a b have pa: "0 \<le> bitlen a" and pb: "1 \<le> bitlen b"
      by (auto simp: bitlen_alt_def)
    have "of_int a / of_int b < (2::rat) ^ nat (bitlen a) / 2 ^ nat (bitlen b - 1)"
      using la lb a b by (intro frac_less) simp_all
    also have "\<dots> = 2 powi (bitlen a) / 2 powi (bitlen b - 1)"
      using pa pb by (simp add: power_int_def)
    also have "\<dots> = 2 powi (k + 1)"
      by (simp add: k_def power_int_diff power_int_add)
    finally show ?thesis
      by (simp only: x)
  qed
  moreover have "2 powi k < (2::rat) powi (k + 1)"
    by (simp add: power_int_add)
  ultimately show ?thesis
    by (auto simp: exponent_def q k_def Let_def)
qed


lemma round64_significand:
  assumes "x \<noteq> 0"
  shows "\<exists>m. round64 x = of_int m * 2 powi (exponent x - 52) \<and> \<bar>m\<bar> \<le> 2 ^ 53"
proof -
  define ulp :: rat where "ulp = 2 powi (exponent x - 52)"
  define m where "m = round_half_even (x / ulp)"
  have ulp: "0 < ulp"
    by (simp add: ulp_def)
  have "2 powi (exponent x + 1) = 2 ^ 53 * ulp"
    by (simp add: ulp_def power_int_diff power_int_add)
  with exponent_less [OF assms] have "\<bar>x\<bar> < 2 ^ 53 * ulp"
    by simp
  with ulp have "\<bar>x / ulp\<bar> < 2 ^ 53"
    by (simp add: abs_divide pos_divide_less_eq)
  with round_half_even_error [of "x / ulp"] have "\<bar>rat_of_int m\<bar> < 2 ^ 53 + 1"
    unfolding m_def by linarith
  then have "rat_of_int \<bar>m\<bar> < rat_of_int (2 ^ 53 + 1)"
    by simp
  then have "\<bar>m\<bar> < 2 ^ 53 + 1"
    by (simp only: of_int_less_iff)
  then have "\<bar>m\<bar> \<le> 2 ^ 53"
    by simp
  moreover have "round64 x = of_int m * ulp"
    using assms by (simp add: round64_def ulp_def m_def Let_def)
  ultimately show ?thesis
    unfolding ulp_def by blast
qed

lemma round64_error: "\<bar>round64 x - x\<bar> \<le> u64 * \<bar>x\<bar>"
proof (cases "x = 0")
  case True
  then show ?thesis by (simp add: round64_def)
next
  case False
  define ulp :: rat where "ulp = 2 powi (exponent x - 52)"
  have ulp: "0 < ulp"
    by (simp add: ulp_def)
  have r: "round64 x = of_int (round_half_even (x / ulp)) * ulp"
    using False by (simp add: round64_def ulp_def Let_def)
  have "\<bar>round64 x - x\<bar> = \<bar>of_int (round_half_even (x / ulp)) - x / ulp\<bar> * ulp"
  proof -
    have "round64 x - x = (of_int (round_half_even (x / ulp)) - x / ulp) * ulp"
      using ulp by (simp add: r field_simps)
    then show ?thesis
      using ulp by (simp add: abs_mult)
  qed
  also have "\<dots> \<le> 1 / 2 * ulp"
    using ulp round_half_even_error [of "x / ulp"] by (intro mult_right_mono) simp_all
  also have "1 / 2 * ulp = u64 * 2 powi (exponent x)"
    by (simp add: ulp_def u64_def power_int_diff)
  also have "\<dots> \<le> u64 * \<bar>x\<bar>"
    using exponent_le [OF False] by (intro mult_left_mono) (simp_all add: u64_def)
  finally show ?thesis .
qed


lemma u64_pos: "0 < u64"
  by (simp add: u64_def)

lemma rel_mult:
  fixes a b x y :: rat
  assumes a: "\<bar>a - x\<bar> \<le> \<alpha> * \<bar>x\<bar>" and b: "\<bar>b - y\<bar> \<le> \<beta> * \<bar>y\<bar>"
    and pos: "0 \<le> \<alpha>" "0 \<le> \<beta>"
  shows "\<bar>a * b - x * y\<bar> \<le> (\<alpha> + \<beta> + \<alpha> * \<beta>) * \<bar>x * y\<bar>"
proof -
  have "\<bar>a\<bar> \<le> \<bar>x\<bar> + \<alpha> * \<bar>x\<bar>"
    using a by linarith
  then have "\<bar>a\<bar> * \<bar>b - y\<bar> \<le> (\<bar>x\<bar> + \<alpha> * \<bar>x\<bar>) * (\<beta> * \<bar>y\<bar>)"
    using b by (intro mult_mono) (simp_all add: pos)
  moreover have "\<bar>a - x\<bar> * \<bar>y\<bar> \<le> \<alpha> * \<bar>x\<bar> * \<bar>y\<bar>"
    using a by (intro mult_right_mono) simp_all
  moreover have "a * b - x * y = (a - x) * y + a * (b - y)"
    by (simp add: algebra_simps)
  then have "\<bar>a * b - x * y\<bar> \<le> \<bar>a - x\<bar> * \<bar>y\<bar> + \<bar>a\<bar> * \<bar>b - y\<bar>"
    by (metis abs_mult abs_triangle_ineq)
  ultimately have "\<bar>a * b - x * y\<bar> \<le> \<alpha> * \<bar>x\<bar> * \<bar>y\<bar> + (\<bar>x\<bar> + \<alpha> * \<bar>x\<bar>) * (\<beta> * \<bar>y\<bar>)"
    by linarith
  also have "\<dots> = (\<alpha> + \<beta> + \<alpha> * \<beta>) * \<bar>x * y\<bar>"
    by (simp add: abs_mult algebra_simps)
  finally show ?thesis .
qed

lemma rel_round:
  assumes c: "\<bar>c - z\<bar> \<le> \<gamma> * \<bar>z\<bar>" and pos: "0 \<le> \<gamma>"
  shows "\<bar>round64 c - z\<bar> \<le> (\<gamma> + u64 * (1 + \<gamma>)) * \<bar>z\<bar>"
proof -
  have "\<bar>c\<bar> \<le> \<bar>z\<bar> + \<gamma> * \<bar>z\<bar>"
    using c by linarith
  then have "u64 * \<bar>c\<bar> \<le> u64 * (\<bar>z\<bar> + \<gamma> * \<bar>z\<bar>)"
    using u64_pos by (intro mult_left_mono) simp_all
  with round64_error [of c] c have "\<bar>round64 c - z\<bar> \<le> \<gamma> * \<bar>z\<bar> + u64 * (\<bar>z\<bar> + \<gamma> * \<bar>z\<bar>)"
    by linarith
  also have "\<dots> = (\<gamma> + u64 * (1 + \<gamma>)) * \<bar>z\<bar>"
    by (simp add: algebra_simps)
  finally show ?thesis .
qed

lemma line64_error:
  "\<bar>line64 p q - of_int (q * p) / 100\<bar> \<le> 4 * u64 * \<bar>of_int (q * p) / 100\<bar>"
proof -
  let ?P = "of_int p / 100 :: rat" and ?Q = "of_int q :: rat"
  have "\<bar>scan_float64 p - ?P\<bar> \<le> u64 * \<bar>?P\<bar>" "\<bar>float64_of_int q - ?Q\<bar> \<le> u64 * \<bar>?Q\<bar>"
    unfolding scan_float64_def float64_of_int_def by (rule round64_error)+
  then have "\<bar>scan_float64 p * float64_of_int q - ?P * ?Q\<bar> \<le> (u64 + u64 + u64 * u64) * \<bar>?P * ?Q\<bar>"
    using u64_pos by (intro rel_mult) simp_all
  then have "\<bar>line64 p q - ?P * ?Q\<bar> \<le>
      (u64 + u64 + u64 * u64 + u64 * (1 + (u64 + u64 + u64 * u64))) * \<bar>?P * ?Q\<bar>"
    unfolding line64_def mul64_def using u64_pos by (intro rel_round) simp_all
  moreover have "u64 + u64 + u64 * u64 + u64 * (1 + (u64 + u64 + u64 * u64)) \<le> 4 * u64"
    by (simp add: u64_def)
  then have "(u64 + u64 + u64 * u64 + u64 * (1 + (u64 + u64 + u64 * u64))) * \<bar>?P * ?Q\<bar> \<le>
      4 * u64 * \<bar>?P * ?Q\<bar>"
    by (intro mult_right_mono) simp_all
  ultimately have "\<bar>line64 p q - ?P * ?Q\<bar> \<le> 4 * u64 * \<bar>?P * ?Q\<bar>"
    by linarith
  moreover have "?P * ?Q = of_int (q * p) / 100"
    by simp
  ultimately show ?thesis
    by (simp only:)
qed

lemma fsum_zero:
  "sum_list (map abs ts) \<le> 0 \<Longrightarrow> foldl add64 0 ts = 0"
proof (induction ts rule: rev_induct)
  case Nil
  then show ?case by simp
next
  case (snoc t ts)
  have "0 \<le> sum_list (map abs ts)"
    by (rule sum_list_nonneg) auto
  with snoc.prems have "sum_list (map abs ts) \<le> 0" "t = 0"
    by simp_all
  with snoc.IH show ?case
    by (simp add: add64_def round64_def)
qed

lemma fsum_error:
  fixes ts :: "rat list"
  assumes "sum_list (map abs ts) \<le> C" "2 * of_nat (length ts) * u64 \<le> 1"
  shows "\<bar>foldl add64 0 ts - sum_list ts\<bar> \<le> 2 * of_nat (length ts) * u64 * C"
  using assms
proof (induction ts rule: rev_induct)
  case Nil
  then show ?case by simp
next
  case (snoc t ts)
  define s where "s = foldl add64 0 ts"
  define w :: rat where "w = 2 * of_nat (length ts) * u64"
  have abs_nonneg: "0 \<le> sum_list (map abs ts)"
    by (rule sum_list_nonneg) auto
  with snoc.prems(1) have C: "sum_list (map abs ts) \<le> C" "0 \<le> C" "sum_list (map abs ts) + \<bar>t\<bar> \<le> C"
    by simp_all
  from snoc.prems(2) u64_pos have w: "w \<le> 1" "0 \<le> w"
    by (simp_all add: w_def algebra_simps)
  from snoc.IH [OF C(1)] w(1) have D: "\<bar>s - sum_list ts\<bar> \<le> w * C"
    by (simp add: s_def w_def)
  have "\<bar>sum_list ts\<bar> \<le> sum_list (map abs ts)"
    by (rule sum_list_abs)
  with C(3) D have st: "\<bar>s + t\<bar> \<le> C + w * C"
    by linarith
  have "u64 * \<bar>s + t\<bar> \<le> u64 * (C + w * C)"
    using st u64_pos by (intro mult_left_mono) simp_all
  moreover have "w * C \<le> C"
    using w C(2) by (simp add: mult_left_le_one_le)
  then have "u64 * (w * C) \<le> u64 * C"
    using u64_pos by (intro mult_left_mono) simp_all
  moreover note round64_error [of "s + t"] D
  ultimately have "\<bar>add64 s t - (sum_list ts + t)\<bar> \<le> w * C + 2 * (u64 * C)"
    unfolding add64_def by (simp add: algebra_simps)
  also have "\<dots> = 2 * of_nat (length (ts @ [t])) * u64 * C"
    by (simp add: w_def algebra_simps)
  finally show ?case
    by (simp add: s_def)
qed

lemma decimal_of_near:
  assumes "\<bar>100 * x - of_int S\<bar> < 1 / 2"
  shows "decimal_of x = S"
proof (cases "0 \<le> x")
  case True
  have "\<lfloor>100 * x + 1 / 2\<rfloor> = S"
    using assms by (intro floor_unique) linarith+
  with True show ?thesis
    by (simp add: decimal_of_def)
next
  case False
  have "\<lfloor>- (100 * x) + 1 / 2\<rfloor> = - S"
    using assms by (intro floor_unique; simp; linarith)
  with False show ?thesis
    by (simp add: decimal_of_def)
qed


lemma lines_error:
  fixes xs :: "(int \<times> int) list"
  shows "\<bar>(\<Sum>(p, q)\<leftarrow>xs. line64 p q) - (\<Sum>(p, q)\<leftarrow>xs. of_int (q * p) / 100)\<bar> \<le>
           4 * u64 * (\<Sum>(p, q)\<leftarrow>xs. \<bar>of_int (q * p) / 100\<bar>) \<and>
         (\<Sum>(p, q)\<leftarrow>xs. \<bar>line64 p q\<bar>) \<le> 2 * (\<Sum>(p, q)\<leftarrow>xs. \<bar>of_int (q * p) / 100\<bar>)"
proof (induction xs)
  case Nil
  then show ?case by simp
next
  case (Cons x xs)
  obtain p q where x: "x = (p, q)"
    by (cases x)
  define t where "t = line64 p q"
  define x0 :: rat where "x0 = of_int (q * p) / 100"
  define T where "T = (\<Sum>(p, q)\<leftarrow>xs. line64 p q)"
  define X :: rat where "X = (\<Sum>(p, q)\<leftarrow>xs. of_int (q * p) / 100)"
  define AT where "AT = (\<Sum>(p, q)\<leftarrow>xs. \<bar>line64 p q\<bar>)"
  define AX :: rat where "AX = (\<Sum>(p, q)\<leftarrow>xs. \<bar>of_int (q * p) / 100\<bar>)"
  have e: "\<bar>t - x0\<bar> \<le> 4 * u64 * \<bar>x0\<bar>"
    unfolding t_def x0_def by (rule line64_error)
  have "4 * u64 * \<bar>x0\<bar> \<le> 1 * \<bar>x0\<bar>"
    by (intro mult_right_mono) (simp_all add: u64_def)
  with e have t: "\<bar>t\<bar> \<le> 2 * \<bar>x0\<bar>"
    by linarith
  from Cons.IH have IH: "\<bar>T - X\<bar> \<le> 4 * u64 * AX" "AT \<le> 2 * AX"
    by (simp_all only: T_def X_def AT_def AX_def)
  have dist: "4 * u64 * (\<bar>x0\<bar> + AX) = 4 * u64 * \<bar>x0\<bar> + 4 * u64 * AX"
    by (simp add: ring_distribs)
  from e IH(1) have "\<bar>(t + T) - (x0 + X)\<bar> \<le> 4 * u64 * (\<bar>x0\<bar> + AX)"
    unfolding dist by linarith
  moreover from t IH(2) have "\<bar>t\<bar> + AT \<le> 2 * (\<bar>x0\<bar> + AX)"
    by simp
  ultimately show ?case
    by (simp add: x t_def x0_def T_def X_def AT_def AX_def)
qed

lemma sum_abs_int:
  fixes xs :: "(int \<times> int) list"
  shows "(\<Sum>(p, q)\<leftarrow>xs. \<bar>rat_of_int (q * p) / 100\<bar>) = of_int (\<Sum>(p, q)\<leftarrow>xs. \<bar>q * p\<bar>) / 100"
    and "(\<Sum>(p, q)\<leftarrow>xs. rat_of_int (q * p) / 100) = of_int (\<Sum>(p, q)\<leftarrow>xs. q * p) / 100"
  by (induction xs) (auto simp: add_divide_distrib)

lemma subtotal_exact:
  fixes xs :: "(int \<times> int) list"
  assumes small: "(int (length xs) + 1) * (\<Sum>(p, q)\<leftarrow>xs. \<bar>q * p\<bar>) \<le> 10 ^ 15"
  shows "decimal_of (foldl add64 0 (map (\<lambda>(p, q). line64 p q) xs)) = (\<Sum>(p, q)\<leftarrow>xs. q * p)"
proof -
  define n where "n = length xs"
  define Sabs where "Sabs = (\<Sum>(p, q)\<leftarrow>xs. \<bar>q * p\<bar>)"
  define S where "S = (\<Sum>(p, q)\<leftarrow>xs. q * p)"
  define ts where "ts = map (\<lambda>(p, q). line64 p q) xs"
  define F where "F = foldl add64 0 ts"
  define A :: rat where "A = of_int Sabs / 100"
  have Sabs0: "0 \<le> Sabs"
    unfolding Sabs_def by (rule sum_list_nonneg) auto
  have "\<bar>sum_list (map (\<lambda>(p, q). q * p) xs)\<bar> \<le> sum_list (map abs (map (\<lambda>(p, q). q * p) xs))"
    by (rule sum_list_abs)
  then have S_le: "\<bar>S\<bar> \<le> Sabs"
    by (simp add: S_def Sabs_def comp_def case_prod_unfold)
  note le = lines_error [of xs, unfolded sum_abs_int, folded Sabs_def S_def, folded A_def]
  have sum_ts: "sum_list ts = (\<Sum>(p, q)\<leftarrow>xs. line64 p q)"
    "sum_list (map abs ts) = (\<Sum>(p, q)\<leftarrow>xs. \<bar>line64 p q\<bar>)"
    by (simp_all add: ts_def comp_def case_prod_unfold)
  from le have err: "\<bar>sum_list ts - of_int S / 100\<bar> \<le> 4 * u64 * A"
    and abs: "sum_list (map abs ts) \<le> 2 * A"
    by (simp_all only: sum_ts)
  have "\<bar>100 * F - of_int S\<bar> < 1 / 2"
  proof (cases "Sabs = 0")
    case True
    with abs have "F = 0"
      unfolding F_def by (intro fsum_zero) (simp add: A_def)
    moreover from S_le True have "S = 0"
      by simp
    ultimately show ?thesis
      by simp
  next
    case False
    with Sabs0 have "1 \<le> Sabs"
      by simp
    then have "(int n + 1) * 1 \<le> (int n + 1) * Sabs"
      by (intro mult_left_mono) simp_all
    moreover from small have "(int n + 1) * Sabs \<le> 10 ^ 15"
      by (simp only: n_def Sabs_def)
    ultimately have n: "int n + 1 \<le> 10 ^ 15"
      by (simp only: mult_1_right order_trans)
    then have "rat_of_int (int n + 1) \<le> rat_of_int (10 ^ 15)"
      by (simp only: of_int_le_iff)
    then have nr: "rat_of_nat n + 1 \<le> 10 ^ 15"
      by simp
    then have "2 * of_nat (length ts) * u64 \<le> 1"
      by (simp add: ts_def n_def u64_def)
    from fsum_error [OF abs this]
    have sum_err: "\<bar>F - sum_list ts\<bar> \<le> 2 * of_nat n * u64 * (2 * A)"
      by (simp only: F_def ts_def n_def length_map)
    define B where "B = u64 * ((of_nat n + 1) * of_int Sabs)"
    have "2 * of_nat n * u64 * (2 * A) + 4 * u64 * A = 4 * B / 100"
      by (simp add: B_def A_def algebra_simps)
    with sum_err err have "\<bar>F - of_int S / 100\<bar> \<le> 4 * B / 100"
      by linarith
    then have 1: "\<bar>100 * F - of_int S\<bar> \<le> 4 * B"
      by linarith
    from small have "rat_of_int ((int n + 1) * Sabs) \<le> rat_of_int (10 ^ 15)"
      unfolding n_def Sabs_def by (simp only: of_int_le_iff)
    then have "(of_nat n + 1) * rat_of_int Sabs \<le> 10 ^ 15"
      by simp
    then have "B \<le> u64 * 10 ^ 15"
      unfolding B_def by (intro mult_left_mono) (simp_all add: u64_def)
    moreover have "4 * (u64 * 10 ^ 15) < 1 / 2"
      by (simp add: u64_def)
    ultimately show ?thesis
      using 1 by linarith
  qed
  then have "decimal_of F = S"
    by (rule decimal_of_near)
  then show ?thesis
    by (simp only: F_def ts_def S_def)
qed

lemma decimal_of_zero: "decimal_of 0 = 0"
  by (rule decimal_of_near) simp

lemma scan_round_trip:
  assumes "\<bar>p\<bar> < 2 ^ 52"
  shows "decimal_of (scan_float64 p) = p"
proof -
  define B where "B = u64 * \<bar>rat_of_int p\<bar>"
  have "\<bar>scan_float64 p - of_int p / 100\<bar> \<le> u64 * \<bar>of_int p / 100\<bar>"
    unfolding scan_float64_def by (rule round64_error)
  moreover have "u64 * \<bar>rat_of_int p / 100\<bar> = B / 100"
    by (simp add: B_def)
  ultimately have "\<bar>scan_float64 p - of_int p / 100\<bar> \<le> B / 100"
    by (simp only:)
  then have 1: "\<bar>100 * scan_float64 p - of_int p\<bar> \<le> B"
    by linarith
  from assms have "rat_of_int \<bar>p\<bar> < rat_of_int (2 ^ 52)"
    by (simp only: of_int_less_iff)
  then have "\<bar>rat_of_int p\<bar> < 2 ^ 52"
    by simp
  then have "B < u64 * 2 ^ 52"
    unfolding B_def by (intro mult_strict_left_mono) (simp_all add: u64_def)
  moreover have "u64 * 2 ^ 52 = 1 / 2"
    by (simp add: u64_def)
  ultimately have "\<bar>100 * scan_float64 p - of_int p\<bar> < 1 / 2"
    using 1 by linarith
  then show ?thesis
    by (rule decimal_of_near)
qed

section \<open>Facts about order creation\<close>

lemma QueryRow_None: "QueryRow rows = None \<longleftrightarrow> rows = []"
  by (cases rows) (simp_all add: QueryRow_def)

lemma left_join_price_nonempty: "left_join_price d c p \<noteq> []"
  by (simp add: left_join_price_def split: list.splits)

lemma left_join_price_cong:
  "customer_product_prices d' = customer_product_prices d \<Longrightarrow>
   left_join_price d' = left_join_price d"
  by (simp add: left_join_price_def fun_eq_iff)

lemma select_price_cong:
  assumes "products d' = products d" "customer_product_prices d' = customer_product_prices d"
  shows "select_price d' = select_price d"
proof (intro ext)
  fix c pid
  from assms(2) have "left_join_price d' = left_join_price d"
    by (rule left_join_price_cong)
  with assms(1) show "select_price d' c pid = select_price d c pid"
    by (simp add: select_price_def)
qed

lemma select_price_agree:
  assumes "distinct (map p_ID (products d))" "QueryRow (select_price_active d c pid) = Some x"
  shows "select_price d c pid = select_price_active d c pid"
proof -
  from assms(2) have "select_price_active d c pid \<noteq> []"
    by (auto simp: QueryRow_def)
  then have "filter (\<lambda>p. p_ID p = pid \<and> p_IsActive p) (products d) \<noteq> []"
    unfolding select_price_active_def by (rule contrapos_nn) simp
  then obtain p where p: "p \<in> set (products d)" "p_ID p = pid" "p_IsActive p"
    by (auto simp: filter_empty_conv)
  from distinct_map_filter_eq [OF assms(1) p(1)] p(2)
  have one: "filter (\<lambda>q. p_ID q = pid) (products d) = [p]"
    by simp
  have "filter (\<lambda>q. p_ID q = pid \<and> p_IsActive q) (products d) =
        filter p_IsActive (filter (\<lambda>q. p_ID q = pid) (products d))"
    by (simp add: conj_commute)
  with one p(3) show ?thesis
    by (simp add: select_price_def select_price_active_def)
qed

lemma sum_subtotal_ok:
  "sum_subtotal d c its s = Inr t \<Longrightarrow>
   (\<forall>it \<in> set its. \<exists>x. QueryRow (select_price_active d c (ir_ProductID it)) = Some x) \<and>
   t = foldl add64 s
         (map (\<lambda>ir. line64 (the (QueryRow (select_price_active d c (ir_ProductID ir)))) (ir_Qty ir))
            its)"
proof (induction its arbitrary: s)
  case Nil
  then show ?case by simp
next
  case (Cons it its)
  from Cons.prems obtain x where x: "QueryRow (select_price_active d c (ir_ProductID it)) = Some x"
    and rest: "sum_subtotal d c its (add64 s (line64 x (ir_Qty it))) = Inr t"
    by (auto simp: line64_def split: option.splits)
  from Cons.IH [OF rest] x show ?case
    by simp
qed

lemma insert_items_frame:
  "insert_items c oid its tx = Inr tx' \<Longrightarrow>
   products tx' = products tx \<and> customer_product_prices tx' = customer_product_prices tx \<and>
   users tx' = users tx \<and> orders tx' = orders tx \<and>
   order_status_history tx' = order_status_history tx \<and>
   next_user_id tx' = next_user_id tx \<and> next_product_id tx' = next_product_id tx \<and>
   next_order_id tx' = next_order_id tx \<and> next_history_id tx' = next_history_id tx"
proof (induction its arbitrary: tx)
  case Nil
  then show ?case by simp
next
  case (Cons it its)
  from Cons.prems obtain x where
    "insert_items c oid its
       (tx\<lparr>order_items := order_items tx @
              [\<lparr>oi_ID = next_item_id tx, oi_OrderID = oid, oi_ProductID = ir_ProductID it,
                oi_Qty = ir_Qty it, oi_UnitPrice = x\<rparr>],
            next_item_id := next_item_id tx + 1\<rparr>) = Inr tx'"
    by (auto split: option.splits)
  from Cons.IH [OF this] show ?case
    by simp
qed

lemma insert_items_rows:
  assumes pk: "distinct (map p_ID (products d))"
  shows "products tx = products d \<Longrightarrow> customer_product_prices tx = customer_product_prices d \<Longrightarrow>
    \<forall>it \<in> set its. \<exists>x. QueryRow (select_price_active d c (ir_ProductID it)) = Some x \<Longrightarrow>
    \<exists>tx' new. insert_items c oid its tx = Inr tx' \<and> order_items tx' = order_items tx @ new \<and>
      map (\<lambda>it. (oi_OrderID it, oi_ProductID it, oi_Qty it, Some (oi_UnitPrice it))) new =
        map (\<lambda>ir. (oid, ir_ProductID ir, ir_Qty ir,
                    QueryRow (select_price_active d c (ir_ProductID ir)))) its"
proof (induction its arbitrary: tx)
  case Nil
  then show ?case by simp
next
  case (Cons it its)
  from Cons.prems(3) obtain x where x: "QueryRow (select_price_active d c (ir_ProductID it)) = Some x"
    by auto
  from Cons.prems(1,2) have "select_price tx = select_price d"
    by (rule select_price_cong)
  with pk x have q: "QueryRow (select_price tx c (ir_ProductID it)) = Some x"
    by (simp add: select_price_agree)
  define row where "row = \<lparr>oi_ID = next_item_id tx, oi_OrderID = oid, oi_ProductID = ir_ProductID it,
               oi_Qty = ir_Qty it, oi_UnitPrice = x\<rparr>"
  define tx1 where "tx1 = tx\<lparr>order_items := order_items tx @ [row], next_item_id := next_item_id tx + 1\<rparr>"
  have step: "insert_items c oid (it # its) tx = insert_items c oid its tx1"
    using q by (simp add: tx1_def row_def)
  have "products tx1 = products d" "customer_product_prices tx1 = customer_product_prices d"
    using Cons.prems(1,2) by (simp_all add: tx1_def)
  moreover from Cons.prems(3) have
    "\<forall>it \<in> set its. \<exists>x. QueryRow (select_price_active d c (ir_ProductID it)) = Some x"
    by simp
  ultimately obtain tx' new where new:
    "insert_items c oid its tx1 = Inr tx'" "order_items tx' = order_items tx1 @ new"
    "map (\<lambda>it. (oi_OrderID it, oi_ProductID it, oi_Qty it, Some (oi_UnitPrice it))) new =
       map (\<lambda>ir. (oid, ir_ProductID ir, ir_Qty ir,
                   QueryRow (select_price_active d c (ir_ProductID ir)))) its"
    using Cons.IH [of tx1] by blast
  show ?case
  proof (intro exI conjI)
    show "insert_items c oid (it # its) tx = Inr tx'"
      using step new(1) by simp
    show "order_items tx' = order_items tx @ (row # new)"
      using new(2) by (simp add: tx1_def)
    show "map (\<lambda>it. (oi_OrderID it, oi_ProductID it, oi_Qty it, Some (oi_UnitPrice it))) (row # new) =
       map (\<lambda>ir. (oid, ir_ProductID ir, ir_Qty ir,
                   QueryRow (select_price_active d c (ir_ProductID ir)))) (it # its)"
      using x new(3) by (simp add: row_def)
  qed
qed


lemma new_items_lines:
  "map (\<lambda>it. (oi_OrderID it, oi_ProductID it, oi_Qty it, Some (oi_UnitPrice it))) new =
     map (\<lambda>ir. (oid, ir_ProductID ir, ir_Qty ir, P ir)) its \<Longrightarrow>
   map (\<lambda>it. line64 (oi_UnitPrice it) (oi_Qty it)) new =
     map (\<lambda>ir. line64 (the (P ir)) (ir_Qty ir)) its"
proof (induction its arbitrary: new)
  case Nil
  then show ?case by simp
next
  case (Cons ir its)
  from Cons.prems obtain it new' where new: "new = it # new'"
    and it: "oi_Qty it = ir_Qty ir" "Some (oi_UnitPrice it) = P ir"
    and rest: "map (\<lambda>it. (oi_OrderID it, oi_ProductID it, oi_Qty it, Some (oi_UnitPrice it))) new' =
     map (\<lambda>ir. (oid, ir_ProductID ir, ir_Qty ir, P ir)) its"
    by (auto simp: map_eq_Cons_conv)
  from it(2) have "the (P ir) = oi_UnitPrice it"
    by (metis option.sel)
  with Cons.IH [OF rest] new it(1) show ?case
    by simp
qed

lemma createOrder_success:
  assumes ok: "createOrderHandler now req d = (Inr oid, d')"
    and pk: "distinct (map p_ID (products d))"
  obtains t new where
    "oid = next_order_id d"
    "orders d' = orders d @
       [\<lparr>o_ID = next_order_id d, o_CustomerID = co_CustomerID req, o_AddressID = co_AddressID req,
         o_AssignedDriverID = None, o_Status = ''por_atender'', o_Subtotal = decimal_of t,
         o_DeliveryFee = 0,
         o_Notes = co_Notes req, o_ScheduledAt = co_ScheduledAt req, o_DeliveredAt = None,
         o_CreatedAt = now\<rparr>]"
    "order_items d' = order_items d @ new"
    "map (\<lambda>it. (oi_OrderID it, oi_ProductID it, oi_Qty it, Some (oi_UnitPrice it))) new =
       map (\<lambda>ir. (oid, ir_ProductID ir, ir_Qty ir,
                   QueryRow (select_price_active d (co_CustomerID req) (ir_ProductID ir))))
         (co_Items req)"
    "t = foldl add64 0 (map (\<lambda>it. line64 (oi_UnitPrice it) (oi_Qty it)) new)"
    "products d' = products d" "customer_product_prices d' = customer_product_prices d"
    "next_order_id d' = next_order_id d + 1" "next_product_id d' = next_product_id d"
proof -
  let ?c = "co_CustomerID req"
  from ok obtain t tx2 where oid: "oid = next_order_id d"
    and t: "sum_subtotal d ?c (co_Items req) 0 = Inr t"
    and tx2: "insert_items ?c (next_order_id d) (co_Items req) (insert_order now req t 0 d) = Inr tx2"
    and d': "d' = insert_history now (next_order_id d) None ''por_atender'' ?c (Some ''Pedido creado'') tx2"
    by (auto simp: createOrderHandler_def Let_def split: if_splits sum.splits)
  note priced = sum_subtotal_ok [OF t]
  have tx1: "products (insert_order now req t 0 d) = products d"
    "customer_product_prices (insert_order now req t 0 d) = customer_product_prices d"
    "order_items (insert_order now req t 0 d) = order_items d"
    by (simp_all add: insert_order_def)
  from priced have "\<forall>it \<in> set (co_Items req).
      \<exists>x. QueryRow (select_price_active d ?c (ir_ProductID it)) = Some x"
    by (rule conjunct1)
  from insert_items_rows [OF pk tx1(1,2) this, of "next_order_id d"]
  obtain tx' new where rows:
    "insert_items ?c (next_order_id d) (co_Items req) (insert_order now req t 0 d) = Inr tx'"
    "order_items tx' = order_items (insert_order now req t 0 d) @ new"
    "map (\<lambda>it. (oi_OrderID it, oi_ProductID it, oi_Qty it, Some (oi_UnitPrice it))) new =
       map (\<lambda>ir. (next_order_id d, ir_ProductID ir, ir_Qty ir,
                   QueryRow (select_price_active d ?c (ir_ProductID ir)))) (co_Items req)"
    by blast
  from rows(1) tx2 have "tx' = tx2"
    by simp
  with rows(2) have new: "order_items tx2 = order_items d @ new"
    by (simp only: tx1(3))
  note new = new rows(3)
  note frame = insert_items_frame [OF tx2]
  from priced new_items_lines [OF new(2)]
  have "t = foldl add64 0 (map (\<lambda>it. line64 (oi_UnitPrice it) (oi_Qty it)) new)"
    by simp
  moreover have "orders d' = orders d @
       [\<lparr>o_ID = next_order_id d, o_CustomerID = co_CustomerID req, o_AddressID = co_AddressID req,
         o_AssignedDriverID = None, o_Status = ''por_atender'', o_Subtotal = decimal_of t,
         o_DeliveryFee = 0,
         o_Notes = co_Notes req, o_ScheduledAt = co_ScheduledAt req, o_DeliveredAt = None,
         o_CreatedAt = now\<rparr>]"
    using frame by (simp add: d' insert_history_def insert_order_def decimal_of_zero)
  moreover have "order_items d' = order_items d @ new"
    using new(1) by (simp add: d' insert_history_def)
  moreover have "products d' = products d" "customer_product_prices d' = customer_product_prices d"
    "next_order_id d' = next_order_id d + 1" "next_product_id d' = next_product_id d"
    using frame by (simp_all add: d' insert_history_def insert_order_def)
  ultimately show ?thesis
    using that oid new(2) by blast
qed

lemma sum_subtotal_fails:
  assumes "it \<in> set its" "QueryRow (select_price_active d c (ir_ProductID it)) = None"
  shows "\<exists>e. sum_subtotal d c its s = Inl e"
  using assms by (induction its arbitrary: s) (auto split: option.splits)

lemma no_active_product:
  "(\<forall>p \<in> set (products d). p_ID p = pid \<longrightarrow> \<not> p_IsActive p) \<longleftrightarrow>
   QueryRow (select_price_active d c pid) = None"
proof -
  have ne: "left_join_price d c p \<noteq> []" for p
    by (simp add: left_join_price_def split: list.splits)
  have "select_price_active d c pid = [] \<longleftrightarrow>
        filter (\<lambda>p. p_ID p = pid \<and> p_IsActive p) (products d) = []"
    by (auto simp: select_price_active_def ne filter_empty_conv)
  moreover have "QueryRow rows = None \<longleftrightarrow> rows = []" for rows :: "decimal list"
    by (cases rows) (simp_all add: QueryRow_def)
  ultimately show ?thesis
    by (auto simp: filter_empty_conv)
qed

lemma createOrder_error_rollback:
  "fst (createOrderHandler now req d) = Inl e \<Longrightarrow> snd (createOrderHandler now req d) = d"
  by (auto simp: createOrderHandler_def Let_def split: if_splits sum.splits)

section \<open>The effective price and its overrides\<close>

text \<open>
  Claim C1. In a database whose primary keys hold, for an active product \<open>p\<close> and any
  customer \<open>c\<close>: the price query of order creation returns the price of the stored
  override row of (c, p) when that row is active, and the base price of \<open>p\<close> when no
  active row is stored; the product listing for \<open>c\<close> has exactly one row for \<open>p\<close>,
  with that same price. Re-submitting an override with \<^verbatim>\<open>is_active=false\<close> leaves a row
  for (c, p) in the table, with the submitted price and the flag off, and the query then
  returns the base price.
\<close>

theorem effective_price_precedence:
  assumes pk: "primary_keys d" and p: "p \<in> set (products d)" "p_IsActive p"
  shows
    "(\<forall>r \<in> set (customer_product_prices d). same_key c (p_ID p) r \<and> cp_IsActive r \<longrightarrow>
        QueryRow (select_price_active d c (p_ID p)) = Some (cp_Price r)) \<and>
     ((\<forall>r \<in> set (customer_product_prices d). same_key c (p_ID p) r \<longrightarrow> \<not> cp_IsActive r) \<longrightarrow>
        QueryRow (select_price_active d c (p_ID p)) = Some (p_Price p)) \<and>
     map (\<lambda>q. Some (p_Price q)) (filter (\<lambda>q. p_ID q = p_ID p) (listProductsHandler (Some c) d)) =
        [QueryRow (select_price_active d c (p_ID p))] \<and>
     (\<forall>now req d1.
        ucp_CustomerID req = c \<and> ucp_ProductID req = p_ID p \<and> ucp_IsActive req = Some False \<and>
        upsertCustomerPriceHandler now req d = (Inr (), d1) \<longrightarrow>
        (\<exists>r \<in> set (customer_product_prices d1).
           same_key c (p_ID p) r \<and> cp_Price r = ucp_Price req \<and> \<not> cp_IsActive r) \<and>
        QueryRow (select_price_active d1 c (p_ID p)) = Some (p_Price p))"
proof -
  have "(\<exists>r \<in> set (customer_product_prices d1).
           same_key c (p_ID p) r \<and> cp_Price r = ucp_Price req \<and> \<not> cp_IsActive r) \<and>
        QueryRow (select_price_active d1 c (p_ID p)) = Some (p_Price p)"
    if req: "ucp_CustomerID req = c" "ucp_ProductID req = p_ID p" "ucp_IsActive req = Some False"
      and ok: "upsertCustomerPriceHandler now req d = (Inr (), d1)" for now req d1
  proof -
    let ?rows1 = "insert_on_duplicate_key_update now c (p_ID p) (ucp_Price req) False
                    (customer_product_prices d)"
    from upsert_success(1) [OF ok] req have d1: "d1 = d\<lparr>customer_product_prices := ?rows1\<rparr>"
      by simp
    from upsert_rows_present obtain r where r: "r \<in> set ?rows1" "same_key c (p_ID p) r"
      by blast
    from upsert_rows_value [OF r] have "cp_Price r = ucp_Price req" "\<not> cp_IsActive r"
      by simp_all
    with r have stored: "\<exists>r \<in> set (customer_product_prices d1).
           same_key c (p_ID p) r \<and> cp_Price r = ucp_Price req \<and> \<not> cp_IsActive r"
      by (auto simp: d1)
    from pk have "primary_keys d1"
      by (simp add: primary_keys_def d1 upsert_rows_distinct)
    moreover from p have "p \<in> set (products d1)"
      by (simp add: d1)
    moreover have "\<forall>r \<in> set (customer_product_prices d1). same_key c (p_ID p) r \<longrightarrow> \<not> cp_IsActive r"
      using upsert_rows_value [of _ now c "p_ID p" "ucp_Price req" False "customer_product_prices d"]
      by (auto simp: d1)
    ultimately have "QueryRow (select_price_active d1 c (p_ID p)) = Some (p_Price p)"
      using p(2) by (intro resolve_base)
    with stored show ?thesis by simp
  qed
  with resolve_override [OF pk p] resolve_base [OF pk p] bulk_single [OF pk p] show ?thesis
    by blast
qed

theorem effective_price_precedence_witness:
  "QueryRow (select_price_active shop 1 1) = Some 850 \<and>
   QueryRow (select_price_active shop 2 1) = Some 1000 \<and>
   map (\<lambda>q. Some (p_Price q)) (filter (\<lambda>q. p_ID q = 1) (listProductsHandler (Some 1) shop)) =
     [Some 850]"
proof -
  let ?p = "\<lparr>p_ID = 1, p_Name = ''Bidon 20L'', p_CapacityLiters = Some 2000, p_Price = 1000,
             p_IsActive = True\<rparr>"
  have pk: "primary_keys shop"
    by (simp add: primary_keys_def shop_def price_key_def)
  have p: "?p \<in> set (products shop)" "p_IsActive ?p"
    by (simp_all add: shop_def)
  from effective_price_precedence [OF pk p, of 1]
  have 1: "QueryRow (select_price_active shop 1 1) = Some 850"
    by (simp add: shop_def same_key_def)
  from effective_price_precedence [OF pk p, of 2]
  have 2: "QueryRow (select_price_active shop 2 1) = Some 1000"
    by (simp add: shop_def same_key_def)
  from effective_price_precedence [OF pk p, of 1] 1
  have 3: "map (\<lambda>q. Some (p_Price q)) (filter (\<lambda>q. p_ID q = 1) (listProductsHandler (Some 1) shop)) =
     [Some 850]"
    by simp
  from 1 2 3 show ?thesis by simp
qed


text \<open>
  Claim C9. After a successful \<^verbatim>\<open>upsertCustomerPriceHandler\<close>, the same request again
  (at any later time) succeeds and returns the very same database, so the stored rows
  and every price read from them are unchanged; and when the keys of the table were
  distinct before the first call they are distinct after it, with exactly one row for
  the (customer, product) pair of the request.
\<close>

theorem upsert_idempotent:
  assumes ok: "upsertCustomerPriceHandler now req d = (Inr (), d1)"
  shows "upsertCustomerPriceHandler now' req d1 = (Inr (), d1) \<and>
         (distinct (map price_key (customer_product_prices d)) \<longrightarrow>
            distinct (map price_key (customer_product_prices d1)) \<and>
            length (filter (same_key (ucp_CustomerID req) (ucp_ProductID req))
                      (customer_product_prices d1)) = 1)"
proof -
  note s = upsert_success [OF ok]
  let ?a = "case ucp_IsActive req of None \<Rightarrow> True | Some a \<Rightarrow> a"
  let ?rows1 = "insert_on_duplicate_key_update now (ucp_CustomerID req) (ucp_ProductID req)
                   (ucp_Price req) ?a (customer_product_prices d)"
  have rows1: "customer_product_prices d1 = ?rows1"
    by (simp add: s(1))
  have "count_products d1 (ucp_ProductID req) = count_products d (ucp_ProductID req)"
    "count_users d1 (ucp_CustomerID req) = count_users d (ucp_CustomerID req)"
    by (simp_all add: s(1) count_products_def count_users_def)
  with s(2-5) have "upsertCustomerPriceHandler now' req d1 =
      (Inr (), d1\<lparr>customer_product_prices :=
                   insert_on_duplicate_key_update now' (ucp_CustomerID req) (ucp_ProductID req)
                     (ucp_Price req) ?a (customer_product_prices d1)\<rparr>)"
    by (simp add: upsertCustomerPriceHandler_def)
  also have "insert_on_duplicate_key_update now' (ucp_CustomerID req) (ucp_ProductID req)
                     (ucp_Price req) ?a (customer_product_prices d1) = customer_product_prices d1"
    unfolding rows1 by (rule upsert_rows_twice)
  finally have twice: "upsertCustomerPriceHandler now' req d1 = (Inr (), d1)"
    by simp
  have "distinct (map price_key (customer_product_prices d1)) \<and>
        length (filter (same_key (ucp_CustomerID req) (ucp_ProductID req)) (customer_product_prices d1)) = 1"
    if pk: "distinct (map price_key (customer_product_prices d))"
  proof -
    from pk have dist: "distinct (map price_key (customer_product_prices d1))"
      unfolding rows1 by (rule upsert_rows_distinct)
    from upsert_rows_present obtain r where
      "r \<in> set (customer_product_prices d1)" "same_key (ucp_CustomerID req) (ucp_ProductID req) r"
      unfolding rows1 by blast
    with dist have "filter (same_key (ucp_CustomerID req) (ucp_ProductID req)) (customer_product_prices d1) = [r]"
      by (rule filter_price_key)
    with dist show ?thesis by simp
  qed
  with twice show ?thesis by blast
qed


theorem upsert_idempotent_witness:
  "upsertCustomerPriceHandler 10
     \<lparr>ucp_CustomerID = 2, ucp_ProductID = 1, ucp_Price = 900, ucp_IsActive = None\<rparr>
     (snd (upsertCustomerPriceHandler 9
        \<lparr>ucp_CustomerID = 2, ucp_ProductID = 1, ucp_Price = 900, ucp_IsActive = None\<rparr> shop)) =
   (Inr (), snd (upsertCustomerPriceHandler 9
        \<lparr>ucp_CustomerID = 2, ucp_ProductID = 1, ucp_Price = 900, ucp_IsActive = None\<rparr> shop)) \<and>
   length (filter (same_key 2 1)
     (customer_product_prices (snd (upsertCustomerPriceHandler 9
        \<lparr>ucp_CustomerID = 2, ucp_ProductID = 1, ucp_Price = 900, ucp_IsActive = None\<rparr> shop)))) = 1"
proof -
  let ?req = "\<lparr>ucp_CustomerID = 2, ucp_ProductID = 1, ucp_Price = 900, ucp_IsActive = None\<rparr>"
  have "fst (upsertCustomerPriceHandler 9 ?req shop) = Inr ()"
    by (simp add: upsertCustomerPriceHandler_def shop_def count_products_def count_users_def)
  then have ok: "upsertCustomerPriceHandler 9 ?req shop =
      (Inr (), snd (upsertCustomerPriceHandler 9 ?req shop))"
    by (simp add: prod_eq_iff)
  have pk: "distinct (map price_key (customer_product_prices shop))"
    by (simp add: shop_def price_key_def)
  from upsert_idempotent [OF ok, of 10] pk show ?thesis
    by simp
qed

section \<open>The status machine\<close>

text \<open>
  Claim C2. For a request that passes the field check (a non-empty new status and an
  actor) on an order whose stored status is \<open>old\<close>, \<^verbatim>\<open>updateOrderStatusHandler\<close>
  accepts exactly the pairs por_atender \<rightarrow> asignado, por_atender \<rightarrow> cancelado,
  asignado \<rightarrow> en_camino, asignado \<rightarrow> cancelado and en_camino \<rightarrow> entregado, after which
  the stored status is the new one. Every other pair, and so every request on an order
  that is entregado or cancelado, is answered with 400 and the message
  \<^verbatim>\<open>transici\'on inv\'alida old \<rightarrow> new\<close>, which contains both statuses, and the database
  is returned as it was.
\<close>

theorem updateStatus_transitions:
  assumes legal: "us_NewStatus req \<noteq> []" "us_ChangedBy req \<noteq> 0"
    and cur: "QueryRow (select_status d i) = Some old"
  shows
    "(if (old, us_NewStatus req) \<in>
          {(''por_atender'', ''asignado''), (''por_atender'', ''cancelado''),
           (''asignado'', ''en_camino''), (''asignado'', ''cancelado''),
           (''en_camino'', ''entregado'')}
      then fst (updateOrderStatusHandler now i req d) = Inr () \<and>
           QueryRow (select_status (snd (updateOrderStatusHandler now i req d)) i) =
             Some (us_NewStatus req)
      else updateOrderStatusHandler now i req d =
             (Inl (BadRequest (invalid_transition_msg old (us_NewStatus req))), d) \<and>
           sublist old (invalid_transition_msg old (us_NewStatus req)) \<and>
           sublist (us_NewStatus req) (invalid_transition_msg old (us_NewStatus req)))"
proof (cases "us_NewStatus req \<in> set (valid old)")
  case True
  from cur obtain r where r: "QueryRow (orders_where_id d i) = Some r" and "old = o_Status r"
    by (auto simp: select_status_def QueryRow_map)
  from r have "o_ID r = i" by (rule QueryRow_where_id)
  with r have "QueryRow (select_status (update_status now (us_NewStatus req) i d) i) = Some (us_NewStatus req)"
    by (simp add: select_status_def where_id_update_status QueryRow_map)
  with True legal cur show ?thesis
    unfolding valid_set [symmetric]
    by (simp add: updateOrderStatusHandler_def allowed_iff)
next
  case False
  with legal cur show ?thesis
    unfolding valid_set [symmetric]
    by (simp add: updateOrderStatusHandler_def allowed_iff sublist_msg_old sublist_msg_new)
qed


theorem updateStatus_transitions_witness:
  "updateOrderStatusHandler 9 1 \<lparr>us_NewStatus = ''entregado'', us_Note = None, us_ChangedBy = 2\<rparr> shop =
     (Inl (BadRequest (invalid_transition_msg ''asignado'' ''entregado'')), shop) \<and>
   fst (updateOrderStatusHandler 9 1 \<lparr>us_NewStatus = ''en_camino'', us_Note = None, us_ChangedBy = 2\<rparr> shop) = Inr ()"
proof -
  have cur: "QueryRow (select_status shop 1) = Some ''asignado''"
    by (simp add: shop_def select_status_def orders_where_id_def QueryRow_def)
  have "us_NewStatus \<lparr>us_NewStatus = ''entregado'', us_Note = None, us_ChangedBy = 2\<rparr> \<noteq> []"
    and "us_ChangedBy \<lparr>us_NewStatus = ''entregado'', us_Note = None, us_ChangedBy = 2\<rparr> \<noteq> 0"
    by simp_all
  from updateStatus_transitions [OF this cur, of 9]
  have a: "updateOrderStatusHandler 9 1 \<lparr>us_NewStatus = ''entregado'', us_Note = None, us_ChangedBy = 2\<rparr> shop =
     (Inl (BadRequest (invalid_transition_msg ''asignado'' ''entregado'')), shop)"
    by simp
  have "us_NewStatus \<lparr>us_NewStatus = ''en_camino'', us_Note = None, us_ChangedBy = 2\<rparr> \<noteq> []"
    and "us_ChangedBy \<lparr>us_NewStatus = ''en_camino'', us_Note = None, us_ChangedBy = 2\<rparr> \<noteq> 0"
    by simp_all
  from updateStatus_transitions [OF this cur, of 9]
  have "fst (updateOrderStatusHandler 9 1 \<lparr>us_NewStatus = ''en_camino'', us_Note = None, us_ChangedBy = 2\<rparr> shop) = Inr ()"
    by simp
  with a show ?thesis by simp
qed

text \<open>
  Claim C7. With a driver given, \<^verbatim>\<open>assignOrderHandler\<close> succeeds exactly when the stored
  status of the order is por_atender; the order row then has status asignado and the
  given driver, and its other columns are as before. An order in any other status is
  answered with 400 (only por_atender orders can be assigned) and an absent order with
  404, both leaving the database as it was.
\<close>

theorem assignOrder_pending:
  assumes given: "DriverID \<noteq> 0"
  shows
    "(fst (assignOrderHandler now i DriverID d) = Inr () \<longleftrightarrow>
        QueryRow (select_status d i) = Some ''por_atender'') \<and>
     (case QueryRow (orders_where_id d i) of
        None \<Rightarrow> assignOrderHandler now i DriverID d = (Inl (NotFound ''pedido no existe''), d)
      | Some r \<Rightarrow>
          if o_Status r = ''por_atender''
          then QueryRow (orders_where_id (snd (assignOrderHandler now i DriverID d)) i) =
                 Some (r\<lparr>o_AssignedDriverID := Some DriverID, o_Status := ''asignado''\<rparr>)
          else assignOrderHandler now i DriverID d =
                 (Inl (BadRequest ''solo pedidos 'por_atender' pueden asignarse''), d))"
proof (cases "QueryRow (orders_where_id d i)")
  case None
  with given show ?thesis
    by (simp add: assignOrderHandler_def QueryRow_status)
next
  case (Some r)
  then have "o_ID r = i" by (rule QueryRow_where_id)
  with Some given show ?thesis
    by (simp add: assignOrderHandler_def QueryRow_status where_id_update_assign QueryRow_map)
qed

theorem assignOrder_pending_witness:
  "fst (assignOrderHandler 9 2 2 shop) = Inr () \<and>
   QueryRow (orders_where_id (snd (assignOrderHandler 9 2 2 shop)) 2) =
     Some \<lparr>o_ID = 2, o_CustomerID = 1, o_AddressID = 1, o_AssignedDriverID = Some 2,
           o_Status = ''asignado'', o_Subtotal = 850, o_DeliveryFee = 0, o_Notes = None,
           o_ScheduledAt = None, o_DeliveredAt = None, o_CreatedAt = 6\<rparr> \<and>
   assignOrderHandler 9 1 2 shop =
     (Inl (BadRequest ''solo pedidos 'por_atender' pueden asignarse''), shop) \<and>
   assignOrderHandler 9 7 2 shop = (Inl (NotFound ''pedido no existe''), shop)"
proof -
  have given: "(2::int) \<noteq> 0" by simp
  have rows: "orders_where_id shop 2 =
      [\<lparr>o_ID = 2, o_CustomerID = 1, o_AddressID = 1, o_AssignedDriverID = None,
        o_Status = ''por_atender'', o_Subtotal = 850, o_DeliveryFee = 0, o_Notes = None,
        o_ScheduledAt = None, o_DeliveredAt = None, o_CreatedAt = 6\<rparr>]"
    "orders_where_id shop 1 =
      [\<lparr>o_ID = 1, o_CustomerID = 1, o_AddressID = 1, o_AssignedDriverID = Some 2,
        o_Status = ''asignado'', o_Subtotal = 1700, o_DeliveryFee = 0, o_Notes = None,
        o_ScheduledAt = None, o_DeliveredAt = None, o_CreatedAt = 4\<rparr>]"
    "orders_where_id shop 7 = []"
    by (simp_all add: shop_def orders_where_id_def)
  show ?thesis
    using assignOrder_pending [OF given, of 9 2 shop] assignOrder_pending [OF given, of 9 1 shop]
      assignOrder_pending [OF given, of 9 7 shop]
    by (simp add: rows select_status_def QueryRow_def)
qed

text \<open>
  Claim C8. When \<^verbatim>\<open>updateOrderStatusHandler\<close> succeeds, the order row it read is stored
  again with the new status and, exactly when the new status is entregado, with
  \<^verbatim>\<open>delivered_at\<close> at the current time; for any other new status \<^verbatim>\<open>delivered_at\<close> and
  every other column keep their values. The rows of the other orders are untouched.
\<close>

theorem updateStatus_frame:
  assumes ok: "fst (updateOrderStatusHandler now i req d) = Inr ()"
  shows
    "(\<exists>r. QueryRow (orders_where_id d i) = Some r \<and>
          QueryRow (orders_where_id (snd (updateOrderStatusHandler now i req d)) i) =
            Some (if us_NewStatus req = ''entregado''
                  then r\<lparr>o_Status := us_NewStatus req, o_DeliveredAt := Some now\<rparr>
                  else r\<lparr>o_Status := us_NewStatus req\<rparr>)) \<and>
     filter (\<lambda>r. o_ID r \<noteq> i) (orders (snd (updateOrderStatusHandler now i req d))) =
       filter (\<lambda>r. o_ID r \<noteq> i) (orders d)"
proof (cases "QueryRow (orders_where_id d i)")
  case None
  with ok show ?thesis
    by (simp add: updateOrderStatusHandler_def QueryRow_status split: if_splits)
next
  case (Some r)
  then have "o_ID r = i" by (rule QueryRow_where_id)
  with Some ok show ?thesis
    by (auto simp: updateOrderStatusHandler_def QueryRow_status where_id_update_status QueryRow_map
        others_update_status split: if_splits)
qed

theorem updateStatus_frame_witness:
  "QueryRow (orders_where_id
     (snd (updateOrderStatusHandler 9 1
            \<lparr>us_NewStatus = ''en_camino'', us_Note = None, us_ChangedBy = 2\<rparr> shop)) 1) =
     Some \<lparr>o_ID = 1, o_CustomerID = 1, o_AddressID = 1, o_AssignedDriverID = Some 2,
           o_Status = ''en_camino'', o_Subtotal = 1700, o_DeliveryFee = 0, o_Notes = None,
           o_ScheduledAt = None, o_DeliveredAt = None, o_CreatedAt = 4\<rparr>"
proof -
  have ok: "fst (updateOrderStatusHandler 9 1
      \<lparr>us_NewStatus = ''en_camino'', us_Note = None, us_ChangedBy = 2\<rparr> shop) = Inr ()"
    by (simp add: updateOrderStatusHandler_def shop_def select_status_def orders_where_id_def
        QueryRow_def valid_def)
  have rows: "orders_where_id shop 1 =
      [\<lparr>o_ID = 1, o_CustomerID = 1, o_AddressID = 1, o_AssignedDriverID = Some 2,
        o_Status = ''asignado'', o_Subtotal = 1700, o_DeliveryFee = 0, o_Notes = None,
        o_ScheduledAt = None, o_DeliveredAt = None, o_CreatedAt = 4\<rparr>]"
    by (simp add: shop_def orders_where_id_def)
  from updateStatus_frame [OF ok] show ?thesis
    by (simp add: rows QueryRow_def)
qed

section \<open>Order creation\<close>

text \<open>
  Claim C3. When some item of the request names a product that is absent or inactive,
  \<^verbatim>\<open>createOrderHandler\<close> answers with an error and the database it returns is the one
  it was given: no order row, no item row and no history row is stored.
\<close>

theorem createOrder_atomic:
  assumes "\<exists>it \<in> set (co_Items req). \<forall>p \<in> set (products d). p_ID p = ir_ProductID it \<longrightarrow> \<not> p_IsActive p"
  shows "\<exists>e. createOrderHandler now req d = (Inl e, d)"
proof -
  from assms obtain it where "it \<in> set (co_Items req)"
    "QueryRow (select_price_active d (co_CustomerID req) (ir_ProductID it)) = None"
    using no_active_product [of d _ "co_CustomerID req"] by blast
  then obtain e where "sum_subtotal d (co_CustomerID req) (co_Items req) 0 = Inl e"
    using sum_subtotal_fails by blast
  then show ?thesis
    by (simp add: createOrderHandler_def)
qed

theorem createOrder_atomic_witness:
  "\<exists>e. createOrderHandler 9
     \<lparr>co_CustomerID = 1, co_AddressID = 1,
       co_Items = [\<lparr>ir_ProductID = 1, ir_Qty = 2\<rparr>, \<lparr>ir_ProductID = 2, ir_Qty = 1\<rparr>],
       co_ScheduledAt = None, co_Notes = None\<rparr> shop = (Inl e, shop)"
proof -
  let ?req = "\<lparr>co_CustomerID = 1, co_AddressID = 1,
       co_Items = [\<lparr>ir_ProductID = 1, ir_Qty = 2\<rparr>, \<lparr>ir_ProductID = 2, ir_Qty = 1\<rparr>],
       co_ScheduledAt = None, co_Notes = None\<rparr>"
  have "\<exists>it \<in> set (co_Items ?req).
      \<forall>p \<in> set (products shop). p_ID p = ir_ProductID it \<longrightarrow> \<not> p_IsActive p"
    by (simp add: shop_def)
  then show ?thesis
    by (rule createOrder_atomic)
qed

text \<open>
  Claim C5. The product listing for a customer and the price query of order creation
  give the same rows: restricted to one product id, the listing has exactly the prices
  the query returns for that customer and product, so both leave out an absent or
  inactive product and both apply the same precedence. The unit price stored with each
  item of a created order is the price that query returns (the second query of the
  handler, which does not ask for an active product, is only reached for products the
  first one accepted).
\<close>

theorem bulk_and_point_reads_agree:
  "map (\<lambda>q. (p_ID q, p_Price q))
     (filter (\<lambda>q. p_ID q = pid) (listProductsHandler (Some c) d)) =
     map (Pair pid) (select_price_active d c pid) \<and>
   (distinct (map p_ID (products d)) \<and> createOrderHandler now req d = (Inr oid, d') \<longrightarrow>
      map (\<lambda>it. (oi_ProductID it, Some (oi_UnitPrice it)))
        (drop (length (order_items d)) (order_items d')) =
      map (\<lambda>ir. (ir_ProductID ir,
                  QueryRow (select_price_active d (co_CustomerID req) (ir_ProductID ir))))
        (co_Items req)) \<and>
   (distinct (map p_ID (products d)) \<and> QueryRow (select_price_active d c pid) = Some x \<longrightarrow>
      QueryRow (select_price d c pid) = Some x)"
proof -
  have "map (\<lambda>it. (oi_ProductID it, Some (oi_UnitPrice it)))
        (drop (length (order_items d)) (order_items d')) =
      map (\<lambda>ir. (ir_ProductID ir,
                  QueryRow (select_price_active d (co_CustomerID req) (ir_ProductID ir))))
        (co_Items req)"
    if pk: "distinct (map p_ID (products d))" and ok: "createOrderHandler now req d = (Inr oid, d')"
  proof -
    from ok pk obtain new where new: "order_items d' = order_items d @ new"
      "map (\<lambda>it. (oi_OrderID it, oi_ProductID it, oi_Qty it, Some (oi_UnitPrice it))) new =
         map (\<lambda>ir. (oid, ir_ProductID ir, ir_Qty ir,
                     QueryRow (select_price_active d (co_CustomerID req) (ir_ProductID ir))))
           (co_Items req)"
      by (rule createOrder_success)
    from new(2) have
      "map (\<lambda>(a, b, c, e). (b, e))
         (map (\<lambda>it. (oi_OrderID it, oi_ProductID it, oi_Qty it, Some (oi_UnitPrice it))) new) =
       map (\<lambda>(a, b, c, e). (b, e))
         (map (\<lambda>ir. (oid, ir_ProductID ir, ir_Qty ir,
                     QueryRow (select_price_active d (co_CustomerID req) (ir_ProductID ir))))
           (co_Items req))"
      by (rule arg_cong)
    then show ?thesis
      by (simp add: new(1) comp_def)
  qed
  moreover have "QueryRow (select_price d c pid) = Some x"
    if "distinct (map p_ID (products d))" "QueryRow (select_price_active d c pid) = Some x"
    using that by (simp add: select_price_agree)
  ultimately show ?thesis
    using bulk_rows by blast
qed

theorem bulk_and_point_reads_agree_witness:
  "map (\<lambda>it. (oi_ProductID it, Some (oi_UnitPrice it)))
     (drop 2 (order_items (snd (createOrderHandler 9
        \<lparr>co_CustomerID = 1, co_AddressID = 1, co_Items = [\<lparr>ir_ProductID = 1, ir_Qty = 2\<rparr>],
          co_ScheduledAt = None, co_Notes = None\<rparr> shop)))) =
     [(1, QueryRow (select_price_active shop 1 1))]"
proof -
  let ?req = "\<lparr>co_CustomerID = 1, co_AddressID = 1, co_Items = [\<lparr>ir_ProductID = 1, ir_Qty = 2\<rparr>],
          co_ScheduledAt = None, co_Notes = None\<rparr>"
  have "fst (createOrderHandler 9 ?req shop) = Inr 3"
    by (simp add: createOrderHandler_def shop_def select_price_active_def select_price_def
        left_join_price_def QueryRow_def insert_order_def insert_history_def)
  then have ok: "createOrderHandler 9 ?req shop = (Inr 3, snd (createOrderHandler 9 ?req shop))"
    by (simp add: prod_eq_iff)
  have pk: "distinct (map p_ID (products shop))"
    by (simp add: shop_def)
  have len: "length (order_items shop) = 2"
    by (simp add: shop_def)
  from bulk_and_point_reads_agree [of _ _ shop 9 ?req 3 "snd (createOrderHandler 9 ?req shop)"]
    pk ok show ?thesis
    by (simp add: len)
qed

text \<open>
  Claim C6, as the code has it. \<^verbatim>\<open>createOrderHandler\<close> answers 400 and returns the
  database it was given whenever the customer id or the address id is 0 or the item list
  is empty. It does not look at the quantity of an item.
\<close>

theorem createOrder_validation:
  assumes "co_CustomerID req = 0 \<or> co_AddressID req = 0 \<or> co_Items req = []"
  shows "createOrderHandler now req d =
           (Inl (BadRequest ''customer_id, address_id e items requeridos''), d)"
  using assms by (auto simp: createOrderHandler_def)

theorem createOrder_validation_witness:
  "createOrderHandler 9
     \<lparr>co_CustomerID = 1, co_AddressID = 0, co_Items = [\<lparr>ir_ProductID = 1, ir_Qty = 2\<rparr>],
       co_ScheduledAt = None, co_Notes = None\<rparr> shop =
     (Inl (BadRequest ''customer_id, address_id e items requeridos''), shop)"
  by (rule createOrder_validation) simp

text \<open>
  Claim C6 as stated fails: a request whose only item has quantity 0 is accepted, and
  the order and its item row are stored.
\<close>

theorem createOrder_qty_counterexample:
  "fst (createOrderHandler 9
     \<lparr>co_CustomerID = 1, co_AddressID = 1, co_Items = [\<lparr>ir_ProductID = 1, ir_Qty = 0\<rparr>],
       co_ScheduledAt = None, co_Notes = None\<rparr> shop) = Inr 3 \<and>
   order_items (snd (createOrderHandler 9
     \<lparr>co_CustomerID = 1, co_AddressID = 1, co_Items = [\<lparr>ir_ProductID = 1, ir_Qty = 0\<rparr>],
       co_ScheduledAt = None, co_Notes = None\<rparr> shop)) =
     order_items shop @ [\<lparr>oi_ID = 3, oi_OrderID = 3, oi_ProductID = 1, oi_Qty = 0, oi_UnitPrice = 850\<rparr>]"
  by (simp add: createOrderHandler_def shop_def select_price_active_def select_price_def
      left_join_price_def QueryRow_def insert_order_def insert_history_def)

section \<open>Totals\<close>

lemma consistent_empty: "consistent empty_db"
  by (simp add: consistent_def empty_db_def)

lemma consistent_frame:
  assumes "consistent d"
    and "map p_ID (products d') = map p_ID (products d)"
    and "map (\<lambda>r. (o_ID r, o_Subtotal r, o_DeliveryFee r)) (orders d') =
         map (\<lambda>r. (o_ID r, o_Subtotal r, o_DeliveryFee r)) (orders d)"
    and "order_items d' = order_items d"
    and "next_product_id d' = next_product_id d" "next_order_id d' = next_order_id d"
  shows "consistent d'"
proof -
  have ids: "map o_ID (orders d') = map o_ID (orders d)"
    using arg_cong [where f = "map fst", OF assms(3)] by (simp add: comp_def)
  have set_eq: "(\<lambda>r. (o_ID r, o_Subtotal r, o_DeliveryFee r)) ` set (orders d') =
        (\<lambda>r. (o_ID r, o_Subtotal r, o_DeliveryFee r)) ` set (orders d)"
    using arg_cong [where f = set, OF assms(3)] by simp
  have rows: "\<exists>r \<in> set (orders d). o_ID r = o_ID r' \<and> o_Subtotal r = o_Subtotal r' \<and>
      o_DeliveryFee r = o_DeliveryFee r'" if "r' \<in> set (orders d')" for r'
  proof -
    from that have "(o_ID r', o_Subtotal r', o_DeliveryFee r') \<in>
        (\<lambda>r. (o_ID r, o_Subtotal r, o_DeliveryFee r)) ` set (orders d)"
      unfolding set_eq [symmetric] by (rule imageI)
    then show ?thesis by auto
  qed
  have "items_of d' = items_of d"
    by (simp add: items_of_def fun_eq_iff assms(4))
  then have sums: "items_sum d' = items_sum d" "within_precision d' = within_precision d"
    by (simp_all add: items_sum_def within_precision_def fun_eq_iff)
  from assms(2) have pset: "set (map p_ID (products d')) = set (map p_ID (products d))"
    by simp
  have "distinct (map p_ID (products d'))"
    using assms(1) by (simp add: assms(2) consistent_def)
  moreover have "\<forall>p \<in> set (products d'). p_ID p < next_product_id d'"
  proof
    fix p assume "p \<in> set (products d')"
    then have "p_ID p \<in> set (map p_ID (products d'))" by simp
    then have "p_ID p \<in> set (map p_ID (products d))" by (simp only: pset)
    with assms(1) show "p_ID p < next_product_id d'"
      by (auto simp: consistent_def assms(5))
  qed
  moreover have "distinct (map o_ID (orders d'))"
    using assms(1) by (simp add: ids consistent_def)
  moreover have "\<forall>r \<in> set (orders d'). o_ID r < next_order_id d'"
    using assms(1) rows by (fastforce simp: consistent_def assms(6))
  moreover have "\<forall>it \<in> set (order_items d').
        oi_OrderID it < next_order_id d' \<and> oi_ProductID it \<in> set (map p_ID (products d'))"
    using assms(1) unfolding pset by (simp add: consistent_def assms(4,6))
  moreover have "\<forall>r \<in> set (orders d').
        o_DeliveryFee r = 0 \<and>
        (within_precision d' (o_ID r) \<longrightarrow> o_Subtotal r = items_sum d' (o_ID r))"
  proof
    fix r' assume "r' \<in> set (orders d')"
    from rows [OF this] obtain r where r: "r \<in> set (orders d)" "o_ID r = o_ID r'"
      "o_Subtotal r = o_Subtotal r'" "o_DeliveryFee r = o_DeliveryFee r'"
      by blast
    from assms(1) r(1) have "o_DeliveryFee r = 0 \<and>
        (within_precision d (o_ID r) \<longrightarrow> o_Subtotal r = items_sum d (o_ID r))"
      by (simp add: consistent_def)
    then show "o_DeliveryFee r' = 0 \<and>
        (within_precision d' (o_ID r') \<longrightarrow> o_Subtotal r' = items_sum d' (o_ID r'))"
      by (simp add: sums r(2-4) [symmetric])
  qed
  ultimately show ?thesis
    by (simp only: consistent_def)
qed


lemma map_ids_update:
  "(\<And>p. g (f p) = g p) \<Longrightarrow> map g (map (\<lambda>p. if P p then f p else p) ps) = map g ps"
  by (induction ps) simp_all

lemma consistent_createUser: "consistent d \<Longrightarrow> consistent (snd (createUserHandler req d))"
  by (rule consistent_frame [of d]) (simp_all add: createUserHandler_def Let_def)

lemma consistent_upsert:
  "consistent d \<Longrightarrow> consistent (snd (upsertCustomerPriceHandler now req d))"
  by (rule consistent_frame [of d]) (simp_all add: upsertCustomerPriceHandler_def Let_def)

lemma consistent_deletePrice:
  "consistent d \<Longrightarrow> consistent (snd (deleteCustomerPriceHandler c p d))"
  by (rule consistent_frame [of d])
    (simp_all add: deleteCustomerPriceHandler_def split: option.splits)

lemma consistent_updateProduct:
  "consistent d \<Longrightarrow> consistent (snd (updateProductHandler i req d))"
  by (rule consistent_frame [of d]) (simp_all add: updateProductHandler_def Let_def map_ids_update)

lemma consistent_deleteProduct:
  "consistent d \<Longrightarrow> consistent (snd (deleteProductHandler i d))"
  by (rule consistent_frame [of d]) (simp_all add: deleteProductHandler_def Let_def map_ids_update)

lemma consistent_assign:
  "consistent d \<Longrightarrow> consistent (snd (assignOrderHandler now i drv d))"
  by (rule consistent_frame [of d])
    (simp_all add: assignOrderHandler_def update_assign_def insert_history_def map_ids_update
      split: option.splits)

lemma consistent_updateStatus:
  "consistent d \<Longrightarrow> consistent (snd (updateOrderStatusHandler now i req d))"
  by (rule consistent_frame [of d])
    (simp_all add: updateOrderStatusHandler_def update_status_def insert_history_def map_ids_update
      split: option.splits)

lemma consistent_createProduct:
  assumes "consistent d"
  shows "consistent (snd (createProductHandler req d))"
proof -
  define new where "new = \<lparr>p_ID = next_product_id d, p_Name = cpr_Name req,
      p_CapacityLiters = cpr_CapacityLiters req, p_Price = cpr_Price req,
      p_IsActive = (case cpr_IsActive req of None \<Rightarrow> True | Some a \<Rightarrow> a)\<rparr>"
  define d' where "d' = d\<lparr>products := products d @ [new], next_product_id := next_product_id d + 1\<rparr>"
  have d': "snd (createProductHandler req d) = d'"
    by (simp add: createProductHandler_def Let_def d'_def new_def)
  from assms have old: "\<forall>p \<in> set (products d). p_ID p < next_product_id d"
    by (simp add: consistent_def)
  then have "next_product_id d \<notin> set (map p_ID (products d))"
    by auto
  with assms have "distinct (map p_ID (products d'))"
    by (simp add: consistent_def d'_def new_def)
  moreover from old have "\<forall>p \<in> set (products d'). p_ID p < next_product_id d'"
    by (auto simp: d'_def new_def)
  moreover have "items_of d' = items_of d"
    by (simp add: items_of_def fun_eq_iff d'_def)
  then have "items_sum d' = items_sum d" "within_precision d' = within_precision d"
    by (simp_all add: items_sum_def within_precision_def fun_eq_iff)
  moreover have "orders d' = orders d" "order_items d' = order_items d"
    "next_order_id d' = next_order_id d" "set (map p_ID (products d)) \<subseteq> set (map p_ID (products d'))"
    by (auto simp: d'_def)
  ultimately have "consistent d'"
    using assms unfolding consistent_def by (simp only:) blast
  then show ?thesis
    by (simp only: d')
qed


lemma priced_product_exists:
  assumes "QueryRow (select_price_active d c pid) = Some x"
  shows "pid \<in> set (map p_ID (products d))"
proof -
  from assms have "select_price_active d c pid \<noteq> []"
    by (auto simp: QueryRow_def)
  then have "filter (\<lambda>p. p_ID p = pid \<and> p_IsActive p) (products d) \<noteq> []"
    unfolding select_price_active_def by (rule contrapos_nn) simp
  then show ?thesis
    by (auto simp: filter_empty_conv)
qed

lemma consistent_createOrder:
  assumes inv: "consistent d"
  shows "consistent (snd (createOrderHandler now req d))"
proof (cases "fst (createOrderHandler now req d)")
  case (Inl e)
  then have "snd (createOrderHandler now req d) = d"
    by (rule createOrder_error_rollback)
  with inv show ?thesis by simp
next
  case (Inr oid)
  define d' where "d' = snd (createOrderHandler now req d)"
  from Inr have ok: "createOrderHandler now req d = (Inr oid, d')"
    by (simp add: d'_def prod_eq_iff)
  from inv have pk: "distinct (map p_ID (products d))"
    by (simp add: consistent_def)
  from ok pk obtain t new where
    oid: "oid = next_order_id d"
    and ords: "orders d' = orders d @
       [\<lparr>o_ID = next_order_id d, o_CustomerID = co_CustomerID req, o_AddressID = co_AddressID req,
         o_AssignedDriverID = None, o_Status = ''por_atender'', o_Subtotal = decimal_of t,
         o_DeliveryFee = 0,
         o_Notes = co_Notes req, o_ScheduledAt = co_ScheduledAt req, o_DeliveredAt = None,
         o_CreatedAt = now\<rparr>]"
    and items: "order_items d' = order_items d @ new"
    and new: "map (\<lambda>it. (oi_OrderID it, oi_ProductID it, oi_Qty it, Some (oi_UnitPrice it))) new =
       map (\<lambda>ir. (oid, ir_ProductID ir, ir_Qty ir,
                   QueryRow (select_price_active d (co_CustomerID req) (ir_ProductID ir))))
         (co_Items req)"
    and t: "t = foldl add64 0 (map (\<lambda>it. line64 (oi_UnitPrice it) (oi_Qty it)) new)"
    and frame: "products d' = products d" "next_order_id d' = next_order_id d + 1"
      "next_product_id d' = next_product_id d"
    by (rule createOrder_success)
  have new_it: "oi_OrderID it = next_order_id d \<and> oi_ProductID it \<in> set (map p_ID (products d))"
    if "it \<in> set new" for it
  proof -
    from that have "(oi_OrderID it, oi_ProductID it, oi_Qty it, Some (oi_UnitPrice it)) \<in>
        set (map (\<lambda>it. (oi_OrderID it, oi_ProductID it, oi_Qty it, Some (oi_UnitPrice it))) new)"
      by simp
    then have "(oi_OrderID it, oi_ProductID it, oi_Qty it, Some (oi_UnitPrice it)) \<in>
        (\<lambda>ir. (oid, ir_ProductID ir, ir_Qty ir,
                QueryRow (select_price_active d (co_CustomerID req) (ir_ProductID ir)))) `
          set (co_Items req)"
      unfolding new by simp
    then obtain ir :: OrderItemReq where eq: "(oi_OrderID it, oi_ProductID it, oi_Qty it, Some (oi_UnitPrice it)) =
        (oid, ir_ProductID ir, ir_Qty ir,
         QueryRow (select_price_active d (co_CustomerID req) (ir_ProductID ir)))"
      by (rule imageE)
    then have "oi_OrderID it = oid" "oi_ProductID it = ir_ProductID ir"
      "QueryRow (select_price_active d (co_CustomerID req) (ir_ProductID ir)) = Some (oi_UnitPrice it)"
      by simp_all
    with priced_product_exists [of d "co_CustomerID req" "ir_ProductID ir" "oi_UnitPrice it"] oid
    show ?thesis by simp
  qed
  from inv have old_it: "\<forall>it \<in> set (order_items d). oi_OrderID it < next_order_id d \<and>
      oi_ProductID it \<in> set (map p_ID (products d))"
    and old_ids: "\<forall>r \<in> set (orders d). o_ID r < next_order_id d"
    and old_sum: "\<forall>r \<in> set (orders d). o_DeliveryFee r = 0 \<and>
      (within_precision d (o_ID r) \<longrightarrow> o_Subtotal r = items_sum d (o_ID r))"
    by (simp_all add: consistent_def)
  have "items_of d' i = items_of d i" if "i < next_order_id d" for i
  proof -
    from that new_it have "filter (\<lambda>it. oi_OrderID it = i) new = []"
      by (auto simp: filter_empty_conv)
    then show ?thesis
      by (simp add: items_of_def items)
  qed
  then have sum_old: "items_sum d' i = items_sum d i" "within_precision d' i = within_precision d i"
    if "i < next_order_id d" for i
    using that by (simp_all add: items_sum_def within_precision_def)
  have items_new: "items_of d' (next_order_id d) = new"
  proof -
    from old_it have "filter (\<lambda>it. oi_OrderID it = next_order_id d) (order_items d) = []"
      by (auto simp: filter_empty_conv)
    moreover from new_it have "filter (\<lambda>it. oi_OrderID it = next_order_id d) new = new"
      by (simp add: filter_id_conv)
    ultimately show ?thesis
      by (simp add: items_of_def items)
  qed
  have sum_new: "decimal_of t = items_sum d' (next_order_id d)"
    if "within_precision d' (next_order_id d)"
  proof -
    let ?xs = "map (\<lambda>it. (oi_UnitPrice it, oi_Qty it)) new"
    from that have "(int (length ?xs) + 1) * (\<Sum>(p, q)\<leftarrow>?xs. \<bar>q * p\<bar>) \<le> 10 ^ 15"
      by (simp add: within_precision_def items_new comp_def)
    then have "decimal_of (foldl add64 0 (map (\<lambda>(p, q). line64 p q) ?xs)) = (\<Sum>(p, q)\<leftarrow>?xs. q * p)"
      by (rule subtotal_exact)
    then show ?thesis
      by (simp add: items_sum_def items_new t comp_def)
  qed
  from old_ids have "next_order_id d \<notin> set (map o_ID (orders d))"
    by auto
  with inv have "distinct (map o_ID (orders d'))"
    by (simp add: consistent_def ords)
  moreover from old_ids have "\<forall>r \<in> set (orders d'). o_ID r < next_order_id d'"
    by (auto simp: ords frame(2))
  moreover from old_it new_it have "\<forall>it \<in> set (order_items d').
        oi_OrderID it < next_order_id d' \<and> oi_ProductID it \<in> set (map p_ID (products d'))"
    by (auto simp: items frame(1,2))
  moreover from old_sum old_ids sum_old sum_new have
    "\<forall>r \<in> set (orders d'). o_DeliveryFee r = 0 \<and>
       (within_precision d' (o_ID r) \<longrightarrow> o_Subtotal r = items_sum d' (o_ID r))"
    by (auto simp: ords)
  moreover from inv have "distinct (map p_ID (products d'))"
    "\<forall>p \<in> set (products d'). p_ID p < next_product_id d'"
    by (simp_all add: consistent_def frame)
  ultimately have "consistent d'"
    by (simp only: consistent_def)
  then show ?thesis
    by (simp only: d'_def)
qed

lemma consistent_serve: "consistent d \<Longrightarrow> consistent (serve rq d)"
  by (cases rq)
    (simp_all add: consistent_createUser consistent_createProduct consistent_updateProduct
      consistent_deleteProduct consistent_upsert consistent_deletePrice consistent_createOrder
      consistent_assign consistent_updateStatus)

lemma consistent_fold: "consistent d \<Longrightarrow> consistent (fold serve reqs d)"
  by (induction reqs arbitrary: d) (simp_all add: consistent_serve)


lemma select_items_rows:
  assumes "distinct (map p_ID (products d))"
    and "\<forall>it \<in> set its. oi_ProductID it \<in> set (map p_ID (products d))"
  shows "map (\<lambda>j. (oi_Qty j, oi_UnitPrice j, oi_LineTotal j))
           (concat (map (\<lambda>it. map (\<lambda>p. OrderItem.extend it
                                   (OrderItemJSON.fields (oi_Qty it * oi_UnitPrice it) (p_Name p)
                                      (p_CapacityLiters p)))
                         (filter (\<lambda>p. p_ID p = oi_ProductID it) (products d))) its)) =
         map (\<lambda>it. (oi_Qty it, oi_UnitPrice it, oi_Qty it * oi_UnitPrice it)) its"
  using assms(2)
proof (induction its)
  case Nil
  then show ?case by simp
next
  case (Cons it its)
  from Cons.prems obtain p where p: "p \<in> set (products d)" "p_ID p = oi_ProductID it"
    by auto
  from distinct_map_filter_eq [OF assms(1) p(1)] p(2)
  have "filter (\<lambda>q. p_ID q = oi_ProductID it) (products d) = [p]"
    by simp
  with Cons show ?case
    by (simp add: OrderItem.extend_def OrderItemJSON.fields_def)
qed

lemma read_order:
  assumes inv: "consistent d" and r: "r \<in> set (orders d)"
  shows "getOrderHandler (o_ID r) d = Inr (select_order r, select_items d (o_ID r)) \<and>
         ((int (length (select_items d (o_ID r))) + 1) *
            (\<Sum>it\<leftarrow>select_items d (o_ID r). \<bar>oi_Qty it * oi_UnitPrice it\<bar>) \<le> 10 ^ 15 \<longrightarrow>
          o_Subtotal r = (\<Sum>it\<leftarrow>select_items d (o_ID r). oi_Qty it * oi_UnitPrice it) \<and>
          o_Subtotal r = (\<Sum>it\<leftarrow>select_items d (o_ID r). oi_LineTotal it)) \<and>
         o_DeliveryFee r = 0"
proof -
  from inv have "distinct (map o_ID (orders d))"
    by (simp add: consistent_def)
  from distinct_map_filter_eq [OF this r] have "orders_where_id d (o_ID r) = [r]"
    by (simp add: orders_where_id_def)
  then have get: "getOrderHandler (o_ID r) d = Inr (select_order r, select_items d (o_ID r))"
    by (simp add: getOrderHandler_def QueryRow_def)
  let ?its = "items_of d (o_ID r)"
  let ?read = "map (\<lambda>j. (oi_Qty j, oi_UnitPrice j, oi_LineTotal j)) (select_items d (o_ID r))"
  from inv have "distinct (map p_ID (products d))"
    "\<forall>it \<in> set ?its. oi_ProductID it \<in> set (map p_ID (products d))"
    by (simp_all add: consistent_def items_of_def)
  then have rows: "?read = map (\<lambda>it. (oi_Qty it, oi_UnitPrice it, oi_Qty it * oi_UnitPrice it)) ?its"
    unfolding select_items_def items_of_def by (rule select_items_rows)
  have "length ?read = length ?its"
    unfolding rows by simp
  then have len: "length (select_items d (o_ID r)) = length ?its"
    by simp
  have "(\<Sum>it\<leftarrow>select_items d (o_ID r). oi_Qty it * oi_UnitPrice it) =
        sum_list (map (\<lambda>(q, u, l). q * u) ?read)"
    by (simp add: comp_def)
  also have "\<dots> = items_sum d (o_ID r)"
    unfolding rows by (simp add: comp_def items_sum_def)
  finally have s1: "(\<Sum>it\<leftarrow>select_items d (o_ID r). oi_Qty it * oi_UnitPrice it) = items_sum d (o_ID r)" .
  have "(\<Sum>it\<leftarrow>select_items d (o_ID r). oi_LineTotal it) = sum_list (map (\<lambda>(q, u, l). l) ?read)"
    by (simp add: comp_def)
  also have "\<dots> = items_sum d (o_ID r)"
    unfolding rows by (simp add: comp_def items_sum_def)
  finally have s2: "(\<Sum>it\<leftarrow>select_items d (o_ID r). oi_LineTotal it) = items_sum d (o_ID r)" .
  have "(\<Sum>it\<leftarrow>select_items d (o_ID r). \<bar>oi_Qty it * oi_UnitPrice it\<bar>) =
        sum_list (map (\<lambda>(q, u, l). \<bar>q * u\<bar>) ?read)"
    by (simp add: comp_def)
  also have "\<dots> = (\<Sum>it\<leftarrow>?its. \<bar>oi_Qty it * oi_UnitPrice it\<bar>)"
    unfolding rows by (simp add: comp_def)
  finally have "(int (length (select_items d (o_ID r))) + 1) *
            (\<Sum>it\<leftarrow>select_items d (o_ID r). \<bar>oi_Qty it * oi_UnitPrice it\<bar>) \<le> 10 ^ 15 \<longleftrightarrow>
          within_precision d (o_ID r)"
    by (simp only: within_precision_def len)
  moreover from inv r have "o_DeliveryFee r = 0"
    "within_precision d (o_ID r) \<longrightarrow> o_Subtotal r = items_sum d (o_ID r)"
    by (simp_all add: consistent_def)
  ultimately show ?thesis
    using get s1 s2 by simp
qed

text \<open>
  Claim C4, as the code has it. After any sequence of requests on the empty database,
  every stored order is read by \<^verbatim>\<open>getOrderHandler\<close> together with its items; when the
  number of items plus one, times the sum of the magnitudes of \<^verbatim>\<open>qty * unit_price\<close>, is at
  most \<open>10 ^ 15\<close> hundredths, the stored subtotal is the sum of \<^verbatim>\<open>qty * unit_price\<close>, and of
  the \<^verbatim>\<open>line_total\<close> column, over those items. For every order the delivery fee is 0 and
  the \<^verbatim>\<open>total\<close> column of the read is subtotal + delivery fee.
\<close>

theorem subtotal_within_precision:
  "\<forall>r \<in> set (orders (fold serve reqs empty_db)).
     \<exists>items. getOrderHandler (o_ID r) (fold serve reqs empty_db) = Inr (select_order r, items) \<and>
       ((int (length items) + 1) * (\<Sum>it\<leftarrow>items. \<bar>oi_Qty it * oi_UnitPrice it\<bar>) \<le> 10 ^ 15 \<longrightarrow>
        o_Subtotal r = (\<Sum>it\<leftarrow>items. oi_Qty it * oi_UnitPrice it) \<and>
        o_Subtotal r = (\<Sum>it\<leftarrow>items. oi_LineTotal it)) \<and>
       o_DeliveryFee r = 0 \<and>
       o_Total (select_order r) = o_Subtotal r + o_DeliveryFee r"
proof
  fix r
  assume r: "r \<in> set (orders (fold serve reqs empty_db))"
  have "consistent (fold serve reqs empty_db)"
    using consistent_empty by (rule consistent_fold)
  from read_order [OF this r] show "\<exists>items.
       getOrderHandler (o_ID r) (fold serve reqs empty_db) = Inr (select_order r, items) \<and>
       ((int (length items) + 1) * (\<Sum>it\<leftarrow>items. \<bar>oi_Qty it * oi_UnitPrice it\<bar>) \<le> 10 ^ 15 \<longrightarrow>
        o_Subtotal r = (\<Sum>it\<leftarrow>items. oi_Qty it * oi_UnitPrice it) \<and>
        o_Subtotal r = (\<Sum>it\<leftarrow>items. oi_LineTotal it)) \<and>
       o_DeliveryFee r = 0 \<and>
       o_Total (select_order r) = o_Subtotal r + o_DeliveryFee r"
    by (intro exI [of _ "select_items (fold serve reqs empty_db) (o_ID r)"])
      (auto simp: select_order_def Order.extend_def OrderJSON.fields_def)
qed

theorem subtotal_within_precision_witness:
  "\<exists>items. getOrderHandler 1 (fold serve day empty_db) =
      Inr (select_order
            \<lparr>o_ID = 1, o_CustomerID = 1, o_AddressID = 1, o_AssignedDriverID = None,
              o_Status = ''por_atender'', o_Subtotal = 1700, o_DeliveryFee = 0, o_Notes = None,
              o_ScheduledAt = None, o_DeliveredAt = None, o_CreatedAt = 4\<rparr>, items) \<and>
     (int (length items) + 1) * (\<Sum>it\<leftarrow>items. \<bar>oi_Qty it * oi_UnitPrice it\<bar>) \<le> 10 ^ 15 \<and>
     1700 = (\<Sum>it\<leftarrow>items. oi_Qty it * oi_UnitPrice it) \<and>
     1700 = (\<Sum>it\<leftarrow>items. oi_LineTotal it)"
proof -
  let ?row = "\<lparr>o_ID = 1, o_CustomerID = 1, o_AddressID = 1, o_AssignedDriverID = None,
        o_Status = ''por_atender'', o_Subtotal = 1700, o_DeliveryFee = 0, o_Notes = None,
        o_ScheduledAt = None, o_DeliveredAt = None, o_CreatedAt = 4\<rparr>"
  have rows: "orders (fold serve day empty_db) = [?row]"
    by code_simp
  have read: "map (\<lambda>it. (oi_Qty it, oi_UnitPrice it)) (select_items (fold serve day empty_db) 1) =
      [(2, 850)]"
    by code_simp
  have get: "getOrderHandler 1 (fold serve day empty_db) =
      Inr (select_order ?row, select_items (fold serve day empty_db) 1)"
    by code_simp
  from subtotal_within_precision [of day, unfolded rows] obtain items where
    a: "getOrderHandler 1 (fold serve day empty_db) = Inr (select_order ?row, items)"
    and b: "(int (length items) + 1) * (\<Sum>it\<leftarrow>items. \<bar>oi_Qty it * oi_UnitPrice it\<bar>) \<le> 10 ^ 15 \<longrightarrow>
       1700 = (\<Sum>it\<leftarrow>items. oi_Qty it * oi_UnitPrice it) \<and>
       1700 = (\<Sum>it\<leftarrow>items. oi_LineTotal it)"
    by auto
  from a get have items: "items = select_items (fold serve day empty_db) 1"
    by simp
  have "length (map (\<lambda>it. (oi_Qty it, oi_UnitPrice it)) items) = 1"
    "sum_list (map (\<lambda>(q, u). \<bar>q * u\<bar>) (map (\<lambda>it. (oi_Qty it, oi_UnitPrice it)) items)) = 1700"
    unfolding items read by simp_all
  then have "(int (length items) + 1) * (\<Sum>it\<leftarrow>items. \<bar>oi_Qty it * oi_UnitPrice it\<bar>) \<le> 10 ^ 15"
    by (simp add: comp_def)
  with a b show ?thesis
    by blast
qed

text \<open>
  Claim C4 as stated fails beyond that precision: in the run \<open>rounding_day\<close> the three
  line totals are 100000000000000.00, 0.01 and -100000000000000.00; the \<^verbatim>\<open>float64\<close>
  sum of the first two is 100000000000000.015625, so the subtotal stored is 0.02, while
  the items the read returns sum to 0.01.
\<close>

theorem subtotal_rounding_counterexample:
  "map o_Subtotal (orders (fold serve rounding_day empty_db)) = [2] \<and>
   (\<Sum>it\<leftarrow>select_items (fold serve rounding_day empty_db) 1. oi_Qty it * oi_UnitPrice it) = 1"
  by code_simp

section \<open>Listing orders\<close>

lemma ids_select_order: "o_ID (select_order r) = o_ID r"
  by (simp add: select_order_def Order.extend_def)

lemma map_insort_key: "map f (insort_key f x ys) = insort (f x) (map f ys)"
  by (induction ys) simp_all

lemma map_sort_key: "map f (sort_key f xs) = sort (map f xs)"
  by (induction xs) (simp_all add: map_insort_key)

lemma ids_desc: "map o_ID (order_by_id_desc rows) = rev (sort (map o_ID rows))"
  by (simp add: order_by_id_desc_def rev_map [symmetric] map_sort_key)

lemma set_desc: "set (order_by_id_desc rows) = set rows"
  by (simp add: order_by_id_desc_def)

lemma length_desc: "length (order_by_id_desc rows) = length rows"
  by (simp add: order_by_id_desc_def)

text \<open>
  Claim C10. Without a customer and without a driver filter, \<^verbatim>\<open>listOrdersHandler\<close>
  returns at most 50 rows, all of them stored orders, and their ids are the first 50 of
  the stored ids in descending order. With a customer filter the driver filter has no
  effect, and the result holds every order of that customer, ids descending, with no
  cap.
\<close>

theorem listOrders_limit:
  "length (listOrdersHandler None None d) \<le> 50 \<and>
   map o_ID (listOrdersHandler None None d) = take 50 (rev (sort (map o_ID (orders d)))) \<and>
   set (listOrdersHandler None None d) \<subseteq> select_order ` set (orders d) \<and>
   listOrdersHandler (Some c) driverID d = listOrdersHandler (Some c) None d \<and>
   map o_ID (listOrdersHandler (Some c) driverID d) =
     rev (sort (map o_ID (filter (\<lambda>r. o_CustomerID r = c) (orders d)))) \<and>
   set (listOrdersHandler (Some c) driverID d) =
     select_order ` set (filter (\<lambda>r. o_CustomerID r = c) (orders d))"
proof -
  have "map o_ID (map select_order rows) = map o_ID rows" for rows
    by (simp add: comp_def ids_select_order)
  then have ids: "map o_ID (listOrdersHandler None None d) = take 50 (rev (sort (map o_ID (orders d))))"
    "map o_ID (listOrdersHandler (Some c) driverID d) =
     rev (sort (map o_ID (filter (\<lambda>r. o_CustomerID r = c) (orders d))))"
    by (simp_all add: listOrdersHandler_def ids_desc take_map [symmetric] del: map_map)
  have "set (take 50 (order_by_id_desc (orders d))) \<subseteq> set (orders d)"
    using set_take_subset [of 50 "order_by_id_desc (orders d)"] by (simp add: set_desc)
  then have sub: "set (listOrdersHandler None None d) \<subseteq> select_order ` set (orders d)"
    by (auto simp: listOrdersHandler_def)
  have "length (listOrdersHandler None None d) \<le> 50"
    by (simp add: listOrdersHandler_def)
  moreover have "listOrdersHandler (Some c) driverID d = listOrdersHandler (Some c) None d"
    by (simp add: listOrdersHandler_def)
  moreover have "set (listOrdersHandler (Some c) driverID d) =
     select_order ` set (filter (\<lambda>r. o_CustomerID r = c) (orders d))"
    by (simp add: listOrdersHandler_def set_desc del: set_filter)
  ultimately show ?thesis
    using ids sub by blast
qed

theorem listOrders_limit_witness:
  "map o_ID (listOrdersHandler None None shop) = [2, 1] \<and>
   map o_ID (listOrdersHandler (Some 1) (Some 7) shop) = [2, 1]"
proof -
  have "sort (map o_ID (orders shop)) = [1, 2]"
    "sort (map o_ID (filter (\<lambda>r. o_CustomerID r = 1) (orders shop))) = [1, 2]"
    by (simp_all add: shop_def)
  with listOrders_limit [of shop 1 "Some 7"]
  have "map o_ID (listOrdersHandler None None shop) = take 50 (rev [1, 2])"
    "map o_ID (listOrdersHandler (Some 1) (Some 7) shop) = rev [1, 2]"
    by metis+
  then show ?thesis
    by simp
qed

end
